theory Spec2Isabelle
  imports Complex_Main
begin

section \<open>JavaScript numbers and values\<close>

text \<open>
  A JavaScript number is read in exact arithmetic: \<open>Num r\<close> is the finite number \<open>r\<close>,
  without rounding, and \<open>NaN\<close> stands for every result that is not a finite number
  (\<open>NaN\<close> itself and the two infinities). A division by zero and the square root of a
  negative number are \<open>NaN\<close>, an operation with a \<open>NaN\<close> operand is \<open>NaN\<close>, and every
  comparison with \<open>NaN\<close> is false, as in JavaScript. IEEE arithmetic differs from this
  reading where an infinity is later compared or used as a divisor, and where it rounds:
  a quantity that is exactly 0 may be rounded to either side of 0, which matters when its
  sign is tested or its square root is taken.
\<close>

datatype jsnum = Num real | NaN

instantiation jsnum :: "{plus, minus, times, inverse, ord}"
begin

fun plus_jsnum :: "jsnum \<Rightarrow> jsnum \<Rightarrow> jsnum" where
  "plus_jsnum (Num a) (Num b) = Num (a + b)"
| "plus_jsnum _ _ = NaN"

fun minus_jsnum :: "jsnum \<Rightarrow> jsnum \<Rightarrow> jsnum" where
  "minus_jsnum (Num a) (Num b) = Num (a - b)"
| "minus_jsnum _ _ = NaN"

fun times_jsnum :: "jsnum \<Rightarrow> jsnum \<Rightarrow> jsnum" where
  "times_jsnum (Num a) (Num b) = Num (a * b)"
| "times_jsnum _ _ = NaN"

fun divide_jsnum :: "jsnum \<Rightarrow> jsnum \<Rightarrow> jsnum" where
  "divide_jsnum (Num a) (Num b) = (if b = 0 then NaN else Num (a / b))"
| "divide_jsnum _ _ = NaN"

fun inverse_jsnum :: "jsnum \<Rightarrow> jsnum" where
  "inverse_jsnum (Num a) = (if a = 0 then NaN else Num (1 / a))"
| "inverse_jsnum NaN = NaN"

fun less_eq_jsnum :: "jsnum \<Rightarrow> jsnum \<Rightarrow> bool" where
  "less_eq_jsnum (Num a) (Num b) = (a \<le> b)"
| "less_eq_jsnum _ _ = False"

fun less_jsnum :: "jsnum \<Rightarrow> jsnum \<Rightarrow> bool" where
  "less_jsnum (Num a) (Num b) = (a < b)"
| "less_jsnum _ _ = False"

instance ..

end

text \<open>\<open>Math.sqrt\<close>.\<close>

fun js_sqrt :: "jsnum \<Rightarrow> jsnum" where
  "js_sqrt (Num a) = (if a < 0 then NaN else Num (sqrt a))"
| "js_sqrt NaN = NaN"

text \<open>The length of an array, and a loop index, as a number.\<close>

definition num_of_nat :: "nat \<Rightarrow> jsnum" where
  "num_of_nat n = Num (real n)"

definition num_of_int :: "int \<Rightarrow> jsnum" where
  "num_of_int k = Num (real_of_int k)"

text \<open>
  The values a row list is made of. Rows are arrays
  \<open>[label, value | [value, formattedValue], color?, labelColor?]\<close>.
\<close>

datatype jsval = JUndefined | JNumber jsnum | JString string | JArray "jsval list"

text \<open>\<open>isArray\<close> (lines 655-658).\<close>

fun isArray :: "jsval \<Rightarrow> bool" where
  "isArray (JArray _) = True"
| "isArray _ = False"

text \<open>
  \<open>v.length\<close> and \<open>v[i]\<close> of an array, \<open>undefined\<close> past its end. The code reads them of
  arrays only (lines 103, 156, 249 and 255 test \<open>isArray\<close> first).
\<close>

fun js_length :: "jsval \<Rightarrow> nat" where
  "js_length (JArray xs) = length xs"
| "js_length _ = 0"

fun js_index :: "jsval \<Rightarrow> nat \<Rightarrow> jsval" where
  "js_index (JArray xs) i = (if i < length xs then xs ! i else JUndefined)"
| "js_index _ i = JUndefined"

text \<open>
  The numeric reading of a value. Row values are numbers; \<open>undefined\<close> reads as
  \<open>NaN\<close>, as it does in JavaScript arithmetic. Values of another type are outside the row
  type and read as \<open>NaN\<close> too.
\<close>

fun to_number :: "jsval \<Rightarrow> jsnum" where
  "to_number (JNumber x) = x"
| "to_number _ = NaN"

text \<open>\<open>'2' in row\<close> on an array: whether index \<open>i\<close> is there.\<close>

definition js_has_index :: "jsval \<Rightarrow> nat \<Rightarrow> bool" where
  "js_has_index v i = (i < js_length v)"

text \<open>\<open>row[i] = v\<close> on an array; writing past the end extends the array.\<close>

fun js_set_index :: "jsval \<Rightarrow> nat \<Rightarrow> jsval \<Rightarrow> jsval" where
  "js_set_index (JArray xs) i v =
     JArray (if i < length xs then xs[i := v]
             else xs @ replicate (i - length xs) JUndefined @ [v])"
| "js_set_index u i v = u"

section \<open>The chart instance\<close>

text \<open>
  The settings object of \<open>_initialize\<close> (the defaults of the constructor, lines 20-37,
  overwritten by the container's size and the user's options). \<open>minHeight\<close> and
  \<open>animation\<close> are \<open>false\<close> (\<open>None\<close>) or a number. The label object maps its keys to
  their values.
\<close>

record settings =
  s_width :: jsnum
  s_height :: jsnum
  s_bottomWidth :: jsnum
  s_bottomPinch :: int
  s_isCurved :: bool
  s_curveHeight :: jsnum
  s_fillType :: string
  s_isInverted :: bool
  s_hoverEffects :: bool
  s_dynamicArea :: bool
  s_minHeight :: "jsnum option"
  s_animation :: "jsnum option"
  s_label :: "string \<rightharpoonup> string"

text \<open>
  The options argument of \<open>draw\<close>: each recognised key is absent (\<open>None\<close>) or carries a
  value of its type; \<open>label\<close> is a list of key-value pairs in the order of the object's
  keys. The click handler and keys that no setting reads are not part of the record.
\<close>

record options =
  o_width :: "jsnum option"
  o_height :: "jsnum option"
  o_bottomWidth :: "jsnum option"
  o_bottomPinch :: "int option"
  o_isCurved :: "bool option"
  o_curveHeight :: "jsnum option"
  o_fillType :: "string option"
  o_isInverted :: "bool option"
  o_hoverEffects :: "bool option"
  o_dynamicArea :: "bool option"
  o_minHeight :: "jsnum option option"
  o_animation :: "jsnum option option"
  o_label :: "(string \<times> string) list option"

definition no_options :: options where
  "no_options = \<lparr> o_width = None, o_height = None, o_bottomWidth = None,
     o_bottomPinch = None, o_isCurved = None, o_curveHeight = None, o_fillType = None,
     o_isInverted = None, o_hoverEffects = None, o_dynamicArea = None,
     o_minHeight = None, o_animation = None, o_label = None \<rparr>"

text \<open>The label object of a new instance (lines 33-36).\<close>

definition default_label :: "string \<rightharpoonup> string" where
  "default_label = [''fontSize'' \<mapsto> ''14px'', ''fill'' \<mapsto> ''#fff'']"

text \<open>
  \<open>this.defaults\<close> (lines 20-37). \<open>extend({}, this.defaults)\<close> copies the top-level
  fields only, so that \<open>settings.label\<close> is the label object of the defaults itself:
  what a call of \<open>draw\<close> writes into it is still there at the next call. The label object
  is therefore a parameter here, \<open>default_label\<close> at the first call.
\<close>

definition defaults :: "(string \<rightharpoonup> string) \<Rightarrow> settings" where
  "defaults lbl = \<lparr> s_width = Num 350, s_height = Num 400, s_bottomWidth = Num (1 / 3),
     s_bottomPinch = 0, s_isCurved = False, s_curveHeight = Num 20, s_fillType = ''solid'',
     s_isInverted = False, s_hoverEffects = False, s_dynamicArea = False,
     s_minHeight = None, s_animation = None, s_label = lbl \<rparr>"

text \<open>The fields of the instance that \<open>_initialize\<close> sets (lines 110, 139, 162-187).\<close>

record funnel =
  data :: "jsval list"
  label :: "string \<rightharpoonup> string"
  width :: jsnum
  height :: jsnum
  bottomWidth :: jsnum
  bottomPinch :: int
  isCurved :: bool
  curveHeight :: jsnum
  fillType :: string
  isInverted :: bool
  hoverEffects :: bool
  dynamicArea :: bool
  minHeight :: "jsnum option"
  animation :: "jsnum option"
  bottomLeftX :: jsnum
  this_dx :: jsnum
  this_dy :: jsnum

datatype error = InvalidInput | TypeError

section \<open>Configuration: \<open>_initialize\<close>\<close>

text \<open>The test of line 103 that throws \<open>Funnel data is not valid.\<close>\<close>

definition invalid_data :: "jsval \<Rightarrow> bool" where
  "invalid_data d \<longleftrightarrow>
     \<not> isArray d \<or> js_length d = 0 \<or> \<not> isArray (js_index d 0) \<or> js_length (js_index d 0) < 2"

text \<open>Lines 122-127: every key of the options but \<open>label\<close> overwrites its setting.\<close>

definition overwrite :: "'a option \<Rightarrow> 'a \<Rightarrow> 'a" where
  "overwrite opt v = (case opt of None \<Rightarrow> v | Some u \<Rightarrow> u)"

definition apply_options :: "options \<Rightarrow> settings \<Rightarrow> settings" where
  "apply_options opts s =
     s\<lparr> s_width := overwrite (o_width opts) (s_width s),
        s_height := overwrite (o_height opts) (s_height s),
        s_bottomWidth := overwrite (o_bottomWidth opts) (s_bottomWidth s),
        s_bottomPinch := overwrite (o_bottomPinch opts) (s_bottomPinch s),
        s_isCurved := overwrite (o_isCurved opts) (s_isCurved s),
        s_curveHeight := overwrite (o_curveHeight opts) (s_curveHeight s),
        s_fillType := overwrite (o_fillType opts) (s_fillType s),
        s_isInverted := overwrite (o_isInverted opts) (s_isInverted s),
        s_hoverEffects := overwrite (o_hoverEffects opts) (s_hoverEffects s),
        s_dynamicArea := overwrite (o_dynamicArea opts) (s_dynamicArea s),
        s_minHeight := overwrite (o_minHeight opts) (s_minHeight s),
        s_animation := overwrite (o_animation opts) (s_animation s) \<rparr>"

text \<open>
  Lines 130-138. \<open>labelOption.match(/fontSize|fill/)\<close> has no anchors: it holds of
  every key in which \<open>fontSize\<close> or \<open>fill\<close> occurs.
\<close>

fun starts_with :: "string \<Rightarrow> string \<Rightarrow> bool" where
  "starts_with [] s = True"
| "starts_with (p # ps) [] = False"
| "starts_with (p # ps) (c # cs) = (p = c \<and> starts_with ps cs)"

fun occurs_in :: "string \<Rightarrow> string \<Rightarrow> bool" where
  "occurs_in p [] = starts_with p []"
| "occurs_in p (c # cs) = (starts_with p (c # cs) \<or> occurs_in p cs)"

definition validLabelOptions :: "string \<Rightarrow> bool" where
  "validLabelOptions k \<longleftrightarrow> occurs_in ''fontSize'' k \<or> occurs_in ''fill'' k"

fun merge_label :: "(string \<times> string) list \<Rightarrow> (string \<rightharpoonup> string) \<Rightarrow> (string \<rightharpoonup> string)" where
  "merge_label [] lbl = lbl"
| "merge_label ((k, v) # kvs) lbl =
     merge_label kvs (if validLabelOptions k then lbl(k \<mapsto> v) else lbl)"

definition label_settings :: "options \<Rightarrow> settings \<Rightarrow> settings" where
  "label_settings opts s =
     (case o_label opts of None \<Rightarrow> s
      | Some kvs \<Rightarrow> s\<lparr> s_label := merge_label kvs (s_label s) \<rparr>)"

text \<open>Lines 143-148.\<close>

definition fallback_size :: "settings \<Rightarrow> settings" where
  "fallback_size s =
     (let s1 = (if s_width s \<le> Num 0 then s\<lparr> s_width := s_width (defaults (s_label s)) \<rparr> else s)
      in if s_height s1 \<le> Num 0 then s1\<lparr> s_height := s_height (defaults (s_label s)) \<rparr> else s1)"

text \<open>
  Lines 151-159. \<open>hexExpression\<close> is \<open>/^#([0-9a-f]{3}|[0-9a-f]{6})$/i\<close>. A color field
  is a string or is absent. \<open>'2' in row\<close> throws a \<open>TypeError\<close> on a row that is not an
  object. The color scale of d3 is not part of the repository: \<open>colorScale\<close> is a
  parameter, \<open>colorScale i\<close> being the color that the scale answers for row \<open>i\<close>.
\<close>

definition hex_digit :: "char \<Rightarrow> bool" where
  "hex_digit c \<longleftrightarrow> c \<in> set ''0123456789abcdefABCDEF''"

definition hexExpression :: "string \<Rightarrow> bool" where
  "hexExpression s \<longleftrightarrow>
     (case s of [] \<Rightarrow> False
      | c # ds \<Rightarrow> c = CHR ''#'' \<and> (length ds = 3 \<or> length ds = 6) \<and> list_all hex_digit ds)"

fun hexExpression_test :: "jsval \<Rightarrow> bool" where
  "hexExpression_test (JString s) = hexExpression s"
| "hexExpression_test _ = False"

fun init_colors :: "(nat \<Rightarrow> string) \<Rightarrow> nat \<Rightarrow> jsval list \<Rightarrow> error + jsval list" where
  "init_colors colorScale i [] = Inr []"
| "init_colors colorScale i (r # rs) =
     (if \<not> isArray r then Inl TypeError
      else case init_colors colorScale (Suc i) rs of
             Inl e \<Rightarrow> Inl e
           | Inr rs' \<Rightarrow>
               Inr ((if \<not> js_has_index r 2 \<or> \<not> hexExpression_test (js_index r 2)
                     then js_set_index r 2 (JString (colorScale i)) else r) # rs'))"

fun js_elements :: "jsval \<Rightarrow> jsval list" where
  "js_elements (JArray xs) = xs"
| "js_elements _ = []"

text \<open>Lines 110, 139 and 162-187: the fields of the instance, from the settings.\<close>

definition configure :: "settings \<Rightarrow> jsval list \<Rightarrow> funnel" where
  "configure s rows =
     \<lparr> data = rows,
       label = s_label s,
       width = s_width s,
       height = s_height s,
       bottomWidth = s_width s * s_bottomWidth s,
       bottomPinch = s_bottomPinch s,
       isCurved = s_isCurved s,
       curveHeight = s_curveHeight s,
       fillType = s_fillType s,
       isInverted = s_isInverted s,
       hoverEffects = s_hoverEffects s,
       dynamicArea = s_dynamicArea s,
       minHeight = s_minHeight s,
       animation = s_animation s,
       bottomLeftX = (s_width s - s_width s * s_bottomWidth s) / Num 2,
       this_dx =
         (if 0 < s_bottomPinch s
          then (s_width s - s_width s * s_bottomWidth s) / Num 2
                 / num_of_int (int (length rows) - s_bottomPinch s)
          else (s_width s - s_width s * s_bottomWidth s) / Num 2 / num_of_nat (length rows)),
       this_dy =
         (if s_isCurved s then (s_height s - s_curveHeight s) / num_of_nat (length rows)
          else s_height s / num_of_nat (length rows)) \<rparr>"

text \<open>
  Lines 117-148: the settings of a call. \<open>mw\<close> and \<open>mh\<close> are what \<open>parseInt\<close> makes of
  the container's \<open>width\<close> and \<open>height\<close> styles: a whole number, or \<open>NaN\<close> when the style
  does not start with a digit (\<open>auto\<close>).
\<close>

definition resolve_settings ::
  "(string \<rightharpoonup> string) \<Rightarrow> jsnum \<Rightarrow> jsnum \<Rightarrow> options \<Rightarrow> settings" where
  "resolve_settings lbl mw mh opts =
     fallback_size (label_settings opts
       (apply_options opts ((defaults lbl)\<lparr> s_width := mw, s_height := mh \<rparr>)))"

text \<open>\<open>_initialize\<close> (lines 101-191).\<close>

definition initialize ::
  "(string \<rightharpoonup> string) \<Rightarrow> jsnum \<Rightarrow> jsnum \<Rightarrow> (nat \<Rightarrow> string) \<Rightarrow> jsval \<Rightarrow> options
     \<Rightarrow> error + funnel" where
  "initialize lbl mw mh colorScale d opts =
     (if invalid_data d then Inl InvalidInput
      else case init_colors colorScale 0 (js_elements d) of
             Inl e \<Rightarrow> Inl e
           | Inr rows \<Rightarrow> Inr (configure (resolve_settings lbl mw mh opts) rows))"

section \<open>Geometry: \<open>_makePaths\<close>\<close>

text \<open>A point of a path: \<open>[x, y, command]\<close>.\<close>

type_synonym point = "jsnum \<times> jsnum \<times> string"

text \<open>The variables that the loop of lines 254-346 carries from row to row.\<close>

record vars =
  dx :: jsnum
  dy :: jsnum
  prevLeftX :: jsnum
  prevRightX :: jsnum
  prevHeight :: jsnum
  topBase :: jsnum
  bottomBase :: jsnum

text \<open>Lines 249 and 255: the count of a row.\<close>

definition row_count :: "jsval \<Rightarrow> jsnum" where
  "row_count r =
     to_number (if isArray (js_index r 1) then js_index (js_index r 1) 0 else js_index r 1)"

text \<open>Lines 233-242.\<close>

definition totalArea :: "funnel \<Rightarrow> jsnum" where
  "totalArea f =
     (case minHeight f of
        None \<Rightarrow> height f * (width f + bottomWidth f) / Num 2
      | Some mh \<Rightarrow>
          (height f - mh * num_of_nat (length (data f))) * (width f + bottomWidth f) / Num 2)"

definition slope :: "funnel \<Rightarrow> jsnum" where
  "slope f = Num 2 * height f / (width f - bottomWidth f)"

text \<open>Lines 244-250.\<close>

definition totalCount :: "funnel \<Rightarrow> jsnum" where
  "totalCount f = foldl (\<lambda>acc r. acc + row_count r) (Num 0) (data f)"

text \<open>
  Lines 258-275: the shape of a block in dynamic-area mode. The radicand of line 266, its
  quotient and the square root are exact here. Where the radicand is exactly 0, as that
  of the last row of a chart with a bottom width of 0 is, the code's floating-point
  numbers may give a small negative number and \<open>Math.sqrt\<close> then \<open>NaN\<close>; what is proved
  of this definition is stated for radicands that are positive.
\<close>

definition dynamic_area :: "funnel \<Rightarrow> jsnum \<Rightarrow> jsnum" where
  "dynamic_area f count =
     (case minHeight f of
        None \<Rightarrow> count / totalCount f * totalArea f
      | Some mh \<Rightarrow> count / totalCount f * totalArea f + mh * (width f + bottomWidth f) / Num 2)"

definition dynamic_shape :: "funnel \<Rightarrow> jsnum \<Rightarrow> vars \<Rightarrow> vars" where
  "dynamic_shape f count v =
     (let area = dynamic_area f count;
          bb = js_sqrt ((slope f * topBase v * topBase v - Num 4 * area) / slope f);
          dy0 = area * Num 2 / (topBase v + bb)
      in v\<lparr> bottomBase := bb,
            dx := topBase v / Num 2 - bb / Num 2,
            dy := (if isCurved f then dy0 - curveHeight f / num_of_nat (length (data f))
                   else dy0),
            topBase := bb \<rparr>)"

text \<open>Lines 278-297: the velocity of a pinched block.\<close>

definition pinch :: "funnel \<Rightarrow> nat \<Rightarrow> vars \<Rightarrow> vars" where
  "pinch f i v =
     (if 0 < bottomPinch f then
        (if \<not> isInverted f then
           (if int (length (data f)) - bottomPinch f \<le> int i then v\<lparr> dx := Num 0 \<rparr> else v)
         else
           (let v1 = (if \<not> dynamicArea f then v\<lparr> dx := this_dx f \<rparr> else v)
            in v1\<lparr> dx := (if int i < bottomPinch f then Num 0 else dx v1) \<rparr>))
      else v)"

text \<open>Lines 300-308: the position of the next block.\<close>

definition nextLeftX :: "funnel \<Rightarrow> vars \<Rightarrow> jsnum" where
  "nextLeftX f v = (if isInverted f then prevLeftX v - dx v else prevLeftX v + dx v)"

definition nextRightX :: "funnel \<Rightarrow> vars \<Rightarrow> jsnum" where
  "nextRightX f v = (if isInverted f then prevRightX v + dx v else prevRightX v - dx v)"

definition nextHeight :: "vars \<Rightarrow> jsnum" where
  "nextHeight v = prevHeight v + dy v"

text \<open>Lines 311-340: the path of the block.\<close>

definition block_path :: "funnel \<Rightarrow> vars \<Rightarrow> point list" where
  "block_path f v =
     (if isCurved f then
        [(prevLeftX v, prevHeight v, ''M''),
         (width f / Num 2, prevHeight v + (curveHeight f - Num 10), ''Q''),
         (prevRightX v, prevHeight v, []),
         (nextRightX f v, nextHeight v, ''L''),
         (nextRightX f v, nextHeight v, ''M''),
         (width f / Num 2, nextHeight v + curveHeight f, ''Q''),
         (nextLeftX f v, nextHeight v, []),
         (prevLeftX v, prevHeight v, ''L'')]
      else
        [(prevLeftX v, prevHeight v, ''M''),
         (prevRightX v, prevHeight v, ''L''),
         (nextRightX f v, nextHeight v, ''L''),
         (nextLeftX f v, nextHeight v, ''L''),
         (prevLeftX v, prevHeight v, ''L'')])"

text \<open>Lines 343-345.\<close>

definition advance :: "funnel \<Rightarrow> vars \<Rightarrow> vars" where
  "advance f v =
     v\<lparr> prevLeftX := nextLeftX f v, prevRightX := nextRightX f v, prevHeight := nextHeight v \<rparr>"

text \<open>
  The velocity and shape variables of row \<open>i\<close> once lines 255-297 have run, from the
  variables \<open>v\<close> that the row before left.
\<close>

definition shape :: "funnel \<Rightarrow> nat \<Rightarrow> jsval \<Rightarrow> vars \<Rightarrow> vars" where
  "shape f i r v = pinch f i (if dynamicArea f then dynamic_shape f (row_count r) v else v)"

text \<open>
  The loop of lines 254-346 from row \<open>i\<close> on: for every row its path, with the variables
  the path was built from.
\<close>

fun blocks :: "funnel \<Rightarrow> nat \<Rightarrow> jsval list \<Rightarrow> vars \<Rightarrow> (point list \<times> vars) list" where
  "blocks f i [] v = []"
| "blocks f i (r # rs) v =
     (block_path f (shape f i r v), shape f i r v)
       # blocks f (Suc i) rs (advance f (shape f i r v))"

text \<open>Lines 204-231: the variables before the first row.\<close>

definition initial_vars :: "funnel \<Rightarrow> vars" where
  "initial_vars f =
     \<lparr> dx = this_dx f,
       dy = this_dy f,
       prevLeftX = (if isInverted f then bottomLeftX f else Num 0),
       prevRightX = (if isInverted f then width f - bottomLeftX f else width f),
       prevHeight = (if isCurved f then Num 10 else Num 0),
       topBase = width f,
       bottomBase = Num 0 \<rparr>"

text \<open>\<open>_makePaths\<close> (lines 199-349).\<close>

definition makePaths :: "funnel \<Rightarrow> point list list" where
  "makePaths f = map fst (blocks f 0 (data f) (initial_vars f))"

section \<open>Drawing: \<open>destroy\<close> and \<open>draw\<close>\<close>

text \<open>
  The container is read as the list of the elements below it, an element as its tag and
  its children; attributes, text and event handlers are not part of the reading.
\<close>

datatype node = Node string "node list"

text \<open>
  \<open>destroy\<close> (lines 45-49): \<open>selectAll('svg').remove()\<close> takes every \<open>svg\<close> element
  below the container out of the document.
\<close>

fun destroy :: "node list \<Rightarrow> node list" where
  "destroy [] = []"
| "destroy (Node t cs # ns) =
     (if t = ''svg'' then destroy ns else Node t (destroy cs) # destroy ns)"

text \<open>
  What lines 71-90 put below the new \<open>svg\<close> element: the gradient definitions (lines
  358-390), the top oval (lines 400-424) and, for every row, a group with a path and a
  text (lines 433-475, 483-492, 620-644). With an animation the groups are appended
  one after the other as the transitions end; this is the tree once the last one is.
\<close>

definition chart :: "funnel \<Rightarrow> node list" where
  "chart f =
     (if fillType f = ''gradient''
      then [Node ''defs'' (map (\<lambda>i. Node ''linearGradient'' (replicate 4 (Node ''stop'' [])))
                             [0 ..< length (data f)])]
      else [])
     @ (if isCurved f then [Node ''path'' []] else [])
     @ map (\<lambda>i. Node ''g'' [Node ''path'' [], Node ''text'' []]) [0 ..< length (data f)]"

text \<open>
  \<open>draw\<close> (lines 63-91): the error or the new instance, and the container afterwards.
  The first four parameters are the state \<open>draw\<close> starts from: the label object of
  the defaults, the container, and the width and height measured on it.
\<close>

definition draw ::
  "(string \<rightharpoonup> string) \<Rightarrow> node list \<Rightarrow> jsnum \<Rightarrow> jsnum \<Rightarrow> (nat \<Rightarrow> string) \<Rightarrow> jsval \<Rightarrow> options
     \<Rightarrow> (error + funnel) \<times> node list" where
  "draw lbl container mw mh colorScale d opts =
     (case initialize lbl mw mh colorScale d opts of
        Inl e \<Rightarrow> (Inl e, destroy container)
      | Inr f \<Rightarrow> (Inr f, destroy container @ [Node ''svg'' (chart f)]))"

section \<open>Colors: \<open>shadeColor\<close>\<close>

text \<open>
  \<open>parseInt(s, 16)\<close>: white space, a sign and \<open>0x\<close> are skipped, then the longest run
  of hexadecimal digits is read; \<open>None\<close> is \<open>NaN\<close>, the result when there is no digit.
\<close>

definition hex_value :: "char \<Rightarrow> nat option" where
  "hex_value =
     map_of [(CHR ''0'', 0), (CHR ''1'', 1), (CHR ''2'', 2), (CHR ''3'', 3), (CHR ''4'', 4),
       (CHR ''5'', 5), (CHR ''6'', 6), (CHR ''7'', 7), (CHR ''8'', 8), (CHR ''9'', 9),
       (CHR ''a'', 10), (CHR ''b'', 11), (CHR ''c'', 12), (CHR ''d'', 13), (CHR ''e'', 14),
       (CHR ''f'', 15), (CHR ''A'', 10), (CHR ''B'', 11), (CHR ''C'', 12), (CHR ''D'', 13),
       (CHR ''E'', 14), (CHR ''F'', 15)]"

fun hex_run :: "nat \<Rightarrow> string \<Rightarrow> nat" where
  "hex_run acc [] = acc"
| "hex_run acc (c # cs) =
     (case hex_value c of None \<Rightarrow> acc | Some d \<Rightarrow> hex_run (16 * acc + d) cs)"

definition hex_number :: "string \<Rightarrow> nat option" where
  "hex_number s =
     (case s of [] \<Rightarrow> None
      | c # cs \<Rightarrow> (case hex_value c of None \<Rightarrow> None | Some d \<Rightarrow> Some (hex_run 0 s)))"

definition strip_0x :: "string \<Rightarrow> string" where
  "strip_0x s = (if starts_with ''0x'' s \<or> starts_with ''0X'' s then drop 2 s else s)"

definition white_space :: "char \<Rightarrow> bool" where
  "white_space c \<longleftrightarrow> c \<in> set [CHR 0x09, CHR 0x0A, CHR 0x0B, CHR 0x0C, CHR 0x0D, CHR '' '']"

definition parseInt16 :: "string \<Rightarrow> int option" where
  "parseInt16 s =
     (case dropWhile white_space s of
        [] \<Rightarrow> None
      | c # cs \<Rightarrow>
          if c = CHR ''-'' then map_option (\<lambda>n. - int n) (hex_number (strip_0x cs))
          else if c = CHR ''+'' then map_option int (hex_number (strip_0x cs))
          else map_option int (hex_number (strip_0x (c # cs))))"

text \<open>
  The operand of \<open>>>\<close> and \<open>&\<close> as a 32-bit signed integer (\<open>NaN\<close> is 0); \<open>>>\<close> is
  then the division by a power of two that rounds down, and \<open>& 0xFF\<close> the remainder
  modulo 256.
\<close>

definition to_int32 :: "int option \<Rightarrow> int" where
  "to_int32 x = (case x of None \<Rightarrow> 0 | Some k \<Rightarrow> (k + 2 ^ 31) mod 2 ^ 32 - 2 ^ 31)"

text \<open>\<open>Math.round\<close>: the nearest whole number, a half rounded up.\<close>

definition js_round :: "real \<Rightarrow> int" where
  "js_round x = \<lfloor>x + 1 / 2\<rfloor>"

text \<open>\<open>toString(16)\<close> of a whole number.\<close>

fun hex_digits :: "nat \<Rightarrow> string" where
  "hex_digits n =
     (if n < 16 then [''0123456789abcdef'' ! n]
      else hex_digits (n div 16) @ [''0123456789abcdef'' ! (n mod 16)])"

declare hex_digits.simps [simp del]

definition toString16 :: "int \<Rightarrow> string" where
  "toString16 k = (if k < 0 then CHR ''-'' # hex_digits (nat (- k)) else hex_digits (nat k))"

text \<open>\<open>shadeColor\<close> (lines 687-700); the shade is a finite number.\<close>

definition shadeColor :: "string \<Rightarrow> real \<Rightarrow> string" where
  "shadeColor color shade =
     (let f = parseInt16 (drop 1 color);
          t = (if shade < 0 then 0 else 255);
          p = (if shade < 0 then shade * - 1 else shade);
          R = to_int32 f div 2 ^ 16;
          G = to_int32 f div 2 ^ 8 mod 256;
          B = to_int32 f mod 256;
          converted = 0x1000000 + (js_round (real_of_int (t - R) * p) + R) * 0x10000
                        + (js_round (real_of_int (t - G) * p) + G) * 0x100
                        + (js_round (real_of_int (t - B) * p) + B)
      in CHR ''#'' # drop 1 (toString16 converted))"

section \<open>Reading the result\<close>

text \<open>The variables that the rows \<open>rs\<close>, the first of them row \<open>i\<close>, leave behind.\<close>

fun vars_after :: "funnel \<Rightarrow> nat \<Rightarrow> jsval list \<Rightarrow> vars \<Rightarrow> vars" where
  "vars_after f i [] v = v"
| "vars_after f i (r # rs) v = vars_after f (Suc i) rs (advance f (shape f i r v))"

text \<open>
  The x-coordinates of the four corners of a path (lines 312-339): a curved path has 8
  points, with its right top corner third and its left bottom corner seventh.
\<close>

definition top_left_x :: "point list \<Rightarrow> jsnum" where
  "top_left_x p = fst (p ! 0)"

definition top_right_x :: "point list \<Rightarrow> jsnum" where
  "top_right_x p = fst (p ! (if length p = 8 then 2 else 1))"

definition bottom_right_x :: "point list \<Rightarrow> jsnum" where
  "bottom_right_x p = fst (p ! (if length p = 8 then 3 else 2))"

definition bottom_left_x :: "point list \<Rightarrow> jsnum" where
  "bottom_left_x p = fst (p ! (if length p = 8 then 6 else 3))"

definition top_width :: "point list \<Rightarrow> jsnum" where
  "top_width p = top_right_x p - top_left_x p"

definition bottom_width :: "point list \<Rightarrow> jsnum" where
  "bottom_width p = bottom_right_x p - bottom_left_x p"

text \<open>The velocity \<open>dx\<close> that each row moves the edges by.\<close>

definition row_dx :: "funnel \<Rightarrow> jsnum list" where
  "row_dx f = map (\<lambda>b. dx (snd b)) (blocks f 0 (data f) (initial_vars f))"

text \<open>
  The area \<open>dy * (topBase + bottomBase) / 2\<close> of the trapezoid of each row, \<open>topBase\<close>
  being the width the row starts from: the width of the chart for the first row and
  the \<open>bottomBase\<close> of the row before for the others (line 274).
\<close>

fun trapezoid_areas :: "jsnum \<Rightarrow> vars list \<Rightarrow> jsnum list" where
  "trapezoid_areas tb [] = []"
| "trapezoid_areas tb (v # vs) =
     dy v * (tb + bottomBase v) / Num 2 # trapezoid_areas (bottomBase v) vs"



text \<open>
  The area of the trapezoid that a straight path draws: its height, from the y-coordinate
  of its first point to that of its third, times the mean of the widths of its two edges.
\<close>

definition path_area :: "point list \<Rightarrow> jsnum" where
  "path_area p = (fst (snd (p ! 2)) - fst (snd (p ! 0))) * (top_width p + bottom_width p) / Num 2"

text \<open>Whether an \<open>svg\<close> element is among the elements.\<close>

fun has_svg :: "node list \<Rightarrow> bool" where
  "has_svg [] = False"
| "has_svg (Node t cs # ns) = (t = ''svg'' \<or> has_svg cs \<or> has_svg ns)"

section \<open>The shading of the specification\<close>

text \<open>
  The shading as the specification words it, to compare \<open>shadeColor\<close> with: each of the
  three channels of the color is moved towards 0 (negative shade) or 255 by the fraction
  \<open>|shade|\<close> of its distance and rounded on its own. The channels of \<open>#rrggbb\<close> are its
  three pairs of digits; those of \<open>#rgb\<close> are its digits doubled, as in CSS.
\<close>

definition hex2 :: "nat \<Rightarrow> string" where
  "hex2 k = [''0123456789abcdef'' ! (k div 16), ''0123456789abcdef'' ! (k mod 16)]"

definition channels :: "string \<Rightarrow> nat list" where
  "channels color =
     (let ds = map (\<lambda>c. case hex_value c of None \<Rightarrow> 0 | Some v \<Rightarrow> v) (drop 1 color)
      in if length ds = 3 then map (\<lambda>v. 17 * v) ds
         else [16 * ds ! 0 + ds ! 1, 16 * ds ! 2 + ds ! 3, 16 * ds ! 4 + ds ! 5])"

definition shade_channel :: "real \<Rightarrow> nat \<Rightarrow> nat" where
  "shade_channel shade c =
     nat (js_round (real c + (if shade < 0 then 0 - real c else 255 - real c) * \<bar>shade\<bar>))"

definition shade_spec :: "string \<Rightarrow> real \<Rightarrow> string" where
  "shade_spec color shade = CHR ''#'' # concat (map (hex2 \<circ> shade_channel shade) (channels color))"

section \<open>Examples\<close>

text \<open>
  The color scale of the examples: d3's \<open>category10\<close> gives the rows of a list in which no
  row has a color of its own the ten colors of its palette in turn.
\<close>

definition category10 :: "nat \<Rightarrow> string" where
  "category10 i =
     [''#1f77b4'', ''#ff7f0e'', ''#2ca02c'', ''#d62728'', ''#9467bd'',
      ''#8c564b'', ''#e377c2'', ''#7f7f7f'', ''#bcbd22'', ''#17becf''] ! (i mod 10)"

text \<open>The rows \<open>[["A", 40], ["B", 20], ["C", 10]]\<close> and the single row \<open>[["A", 1]]\<close>.\<close>

definition rows_abc :: jsval where
  "rows_abc =
     JArray [JArray [JString ''A'', JNumber (Num 40)],
             JArray [JString ''B'', JNumber (Num 20)],
             JArray [JString ''C'', JNumber (Num 10)]]"

definition rows_a :: jsval where
  "rows_a = JArray [JArray [JString ''A'', JNumber (Num 1)]]"

text \<open>
  The instance that \<open>_initialize\<close> makes of the rows \<open>rows_abc\<close> in a container of 350
  by 400 pixels without options.
\<close>

definition funnel_abc :: funnel where
  "funnel_abc =
     \<lparr> data = [JArray [JString ''A'', JNumber (Num 40), JString ''#1f77b4''],
               JArray [JString ''B'', JNumber (Num 20), JString ''#ff7f0e''],
               JArray [JString ''C'', JNumber (Num 10), JString ''#2ca02c'']],
       label = default_label, width = Num 350, height = Num 400,
       bottomWidth = Num (350 / 3), bottomPinch = 0, isCurved = False,
       curveHeight = Num 20, fillType = ''solid'', isInverted = False,
       hoverEffects = False, dynamicArea = False, minHeight = None,
       animation = None, bottomLeftX = Num (350 / 3),
       this_dx = Num (350 / 9), this_dy = Num (400 / 3) \<rparr>"

text \<open>The same rows on an inverted chart and on a chart with \<open>bottomPinch: 1\<close>.\<close>

definition funnel_inverted :: funnel where
  "funnel_inverted = funnel_abc\<lparr> isInverted := True \<rparr>"

definition funnel_pinched :: funnel where
  "funnel_pinched = funnel_abc\<lparr> bottomPinch := 1, this_dx := Num (175 / 3) \<rparr>"



definition funnel_dynamic :: funnel where
  "funnel_dynamic =
     \<lparr> data = [JArray [JString ''A'', JNumber (Num 9), JString ''#1f77b4''],
               JArray [JString ''B'', JNumber (Num 7), JString ''#ff7f0e'']],
       label = default_label, width = Num 500, height = Num 800,
       bottomWidth = Num 300, bottomPinch = 0, isCurved = False,
       curveHeight = Num 20, fillType = ''solid'', isInverted = False,
       hoverEffects = False, dynamicArea = True, minHeight = None,
       animation = None, bottomLeftX = Num 100,
       this_dx = Num 50, this_dy = Num 400 \<rparr>"





text \<open>
  The row \<open>[["A", 1]]\<close> in a container of 350 by 400 pixels with the options
  \<open>{bottomWidth: 1, dynamicArea: true}\<close>: the bottom of the chart is as wide as its top.
\<close>

definition options_flat :: options where
  "options_flat = no_options\<lparr> o_bottomWidth := Some (Num 1), o_dynamicArea := Some True \<rparr>"

definition funnel_flat :: funnel where
  "funnel_flat =
     \<lparr> data = [JArray [JString ''A'', JNumber (Num 1), JString ''#1f77b4'']],
       label = default_label, width = Num 350, height = Num 400,
       bottomWidth = Num 350, bottomPinch = 0, isCurved = False,
       curveHeight = Num 20, fillType = ''solid'', isInverted = False,
       hoverEffects = False, dynamicArea = True, minHeight = None,
       animation = None, bottomLeftX = Num 0,
       this_dx = Num 0, this_dy = Num 400 \<rparr>"

text \<open>The same chart, curved and inverted.\<close>

definition options_flat_curved :: options where
  "options_flat_curved = options_flat\<lparr> o_isCurved := Some True, o_isInverted := Some True \<rparr>"

definition funnel_flat_curved :: funnel where
  "funnel_flat_curved =
     funnel_flat\<lparr> isCurved := True, isInverted := True, this_dy := Num 380 \<rparr>"

text \<open>
  The rows \<open>rows_abc\<close> in a container whose \<open>width\<close> and \<open>height\<close> styles are \<open>auto\<close>, as
  those of an element that is not displayed are: \<open>parseInt\<close> makes \<open>NaN\<close> of both.
\<close>

definition funnel_unsized :: funnel where
  "funnel_unsized =
     funnel_abc\<lparr> width := NaN, height := NaN, bottomWidth := NaN, bottomLeftX := NaN,
       this_dx := NaN, this_dy := NaN \<rparr>"

text \<open>The options \<open>{label: {fillOpacity: "0.5"}}\<close>.\<close>

definition options_label :: options where
  "options_label = no_options\<lparr> o_label := Some [(''fillOpacity'', ''0.5'')] \<rparr>"

section \<open>Evaluation of the examples\<close>

lemmas settings_defs = resolve_settings_def fallback_size_def label_settings_def
  apply_options_def defaults_def overwrite_def no_options_def

lemmas initialize_defs = initialize_def invalid_data_def js_has_index_def category10_def
  configure_def num_of_nat_def num_of_int_def

lemmas path_defs = makePaths_def initial_vars_def shape_def pinch_def block_path_def
  advance_def nextLeftX_def nextRightX_def nextHeight_def

lemma initialize_abc:
  "initialize default_label (Num 350) (Num 400) category10 rows_abc no_options = Inr funnel_abc"
  by (simp add: initialize_defs settings_defs rows_abc_def funnel_abc_def)

lemma makePaths_abc:
  "makePaths funnel_abc =
     [[(Num 0, Num 0, ''M''), (Num 350, Num 0, ''L''), (Num (2800 / 9), Num (400 / 3), ''L''),
       (Num (350 / 9), Num (400 / 3), ''L''), (Num 0, Num 0, ''L'')],
      [(Num (350 / 9), Num (400 / 3), ''M''), (Num (2800 / 9), Num (400 / 3), ''L''),
       (Num (2450 / 9), Num (800 / 3), ''L''), (Num (700 / 9), Num (800 / 3), ''L''),
       (Num (350 / 9), Num (400 / 3), ''L'')],
      [(Num (700 / 9), Num (800 / 3), ''M''), (Num (2450 / 9), Num (800 / 3), ''L''),
       (Num (700 / 3), Num 400, ''L''), (Num (350 / 3), Num 400, ''L''),
       (Num (700 / 9), Num (800 / 3), ''L'')]]"
  by (simp add: path_defs funnel_abc_def)

lemma initialize_inverted:
  "initialize default_label (Num 350) (Num 400) category10 rows_abc
     (no_options\<lparr> o_isInverted := Some True \<rparr>) = Inr funnel_inverted"
  by (simp add: initialize_defs settings_defs rows_abc_def funnel_inverted_def funnel_abc_def)

lemma initialize_pinched:
  "initialize default_label (Num 350) (Num 400) category10 rows_abc
     (no_options\<lparr> o_bottomPinch := Some 1 \<rparr>) = Inr funnel_pinched"
  by (simp add: initialize_defs settings_defs rows_abc_def funnel_pinched_def funnel_abc_def)



lemma initialize_flat_curved:
  "initialize default_label (Num 350) (Num 400) category10 rows_a options_flat_curved
     = Inr funnel_flat_curved"
  by (simp add: initialize_defs settings_defs rows_a_def funnel_flat_curved_def funnel_flat_def
      options_flat_curved_def options_flat_def)

lemma sqrt_examples: "sqrt 160000 = 400" "sqrt 90000 = 300"
  by (rule real_sqrt_unique; simp)+

lemma counts_dynamic:
  "totalCount funnel_dynamic = Num 16" "totalArea funnel_dynamic = Num 320000"
  "slope funnel_dynamic = Num 8"
  by (simp_all add: funnel_dynamic_def totalCount_def totalArea_def slope_def row_count_def)

lemmas dynamic_defs = dynamic_shape_def dynamic_area_def Let_def row_count_def

lemma makePaths_dynamic:
  "makePaths funnel_dynamic =
     [[(Num 0, Num 0, ''M''), (Num 500, Num 0, ''L''), (Num 450, Num 400, ''L''),
       (Num 50, Num 400, ''L''), (Num 0, Num 0, ''L'')],
      [(Num 50, Num 400, ''M''), (Num 450, Num 400, ''L''), (Num 400, Num 800, ''L''),
       (Num 100, Num 800, ''L''), (Num 50, Num 400, ''L'')]]"
  by (simp add: path_defs funnel_dynamic_def dynamic_defs
      counts_dynamic [unfolded funnel_dynamic_def] sqrt_examples)

lemma row_dx_dynamic: "row_dx funnel_dynamic = [Num 50, Num 50]"
  by (simp add: row_dx_def path_defs funnel_dynamic_def dynamic_defs
      counts_dynamic [unfolded funnel_dynamic_def] sqrt_examples)




lemma makePaths_flat_curved:
  "makePaths funnel_flat_curved =
     [[(Num 0, Num 10, ''M''), (Num 175, Num 20, ''Q''), (Num 350, Num 10, []),
       (NaN, NaN, ''L''), (NaN, NaN, ''M''), (Num 175, NaN, ''Q''), (NaN, NaN, []),
       (Num 0, Num 10, ''L'')]]"
  by (simp add: path_defs funnel_flat_curved_def funnel_flat_def dynamic_defs slope_def
      totalArea_def totalCount_def)



lemmas path_area_defs = path_area_def top_width_def bottom_width_def top_left_x_def
  top_right_x_def bottom_left_x_def bottom_right_x_def



lemma path_areas_dynamic: "map path_area (makePaths funnel_dynamic) = [Num 180000, Num 140000]"
  by (simp add: makePaths_dynamic path_area_defs)








section \<open>One path per row\<close>

lemma length_blocks: "length (blocks f i rs v) = length rs"
  by (induction rs arbitrary: i v) simp_all

lemma length_block_path: "length (block_path f v) = (if isCurved f then 8 else 5)"
  by (simp add: block_path_def)

lemma blocks_path_length:
  "(p, u) \<in> set (blocks f i rs v) \<Longrightarrow> length p = (if isCurved f then 8 else 5)"
  by (induction rs arbitrary: i v) (auto simp: length_block_path)

lemma blocks_nth:
  "j < length rs \<Longrightarrow>
     blocks f i rs v ! j =
       (block_path f (shape f (i + j) (rs ! j) (vars_after f i (take j rs) v)),
        shape f (i + j) (rs ! j) (vars_after f i (take j rs) v))"
proof (induction rs arbitrary: i v j)
  case Nil
  then show ?case by simp
next
  case (Cons r rs)
  show ?case
  proof (cases j)
    case 0
    then show ?thesis by simp
  next
    case (Suc k)
    with Cons.prems have "k < length rs" by simp
    from Cons.IH [OF this, of "Suc i" "advance f (shape f i r v)"] Suc
    show ?thesis by simp
  qed
qed

text \<open>
  C3. \<open>_makePaths\<close> returns one path for every row, in the order of the rows: the path
  at position \<open>i\<close> is the one that the loop builds for row \<open>i\<close>, from the variables that
  the rows before it left. A path has 8 points on a curved chart and 5 otherwise.
\<close>

theorem makePaths_one_per_row:
  "length (makePaths f) = length (data f) \<and>
   (\<forall>p \<in> set (makePaths f). length p = (if isCurved f then 8 else 5)) \<and>
   (\<forall>i < length (data f).
      makePaths f ! i =
        block_path f (shape f i (data f ! i)
          (vars_after f 0 (take i (data f)) (initial_vars f))))"
  unfolding makePaths_def
  by (auto simp: length_blocks blocks_nth dest: blocks_path_length)

theorem makePaths_one_per_row_witness:
  "length (makePaths funnel_abc) = 3 \<and> length (makePaths funnel_abc ! 2) = 5"
proof -
  have d: "length (data funnel_abc) = 3" "\<not> isCurved funnel_abc"
    by (simp_all add: funnel_abc_def)
  from makePaths_one_per_row [of funnel_abc] d
  have len: "length (makePaths funnel_abc) = 3"
    and pts: "\<forall>p \<in> set (makePaths funnel_abc). length p = 5"
    by simp_all
  from len have "makePaths funnel_abc ! 2 \<in> set (makePaths funnel_abc)"
    by simp
  with pts len show ?thesis by blast
qed

section \<open>Corners and centring\<close>

lemma corners_block_path [simp]:
  "top_left_x (block_path f v) = prevLeftX v"
  "top_right_x (block_path f v) = prevRightX v"
  "bottom_right_x (block_path f v) = nextRightX f v"
  "bottom_left_x (block_path f v) = nextLeftX f v"
  by (simp_all add: block_path_def top_left_x_def top_right_x_def bottom_right_x_def
      bottom_left_x_def)

lemma prev_dynamic_shape [simp]:
  "prevLeftX (dynamic_shape f c v) = prevLeftX v"
  "prevRightX (dynamic_shape f c v) = prevRightX v"
  "prevHeight (dynamic_shape f c v) = prevHeight v"
  by (simp_all add: dynamic_shape_def Let_def)

lemma prev_pinch [simp]:
  "prevLeftX (pinch f i v) = prevLeftX v"
  "prevRightX (pinch f i v) = prevRightX v"
  "prevHeight (pinch f i v) = prevHeight v"
  "dy (pinch f i v) = dy v"
  "topBase (pinch f i v) = topBase v"
  "bottomBase (pinch f i v) = bottomBase v"
  by (simp_all add: pinch_def Let_def)

lemma prev_shape [simp]:
  "prevLeftX (shape f i r v) = prevLeftX v"
  "prevRightX (shape f i r v) = prevRightX v"
  "prevHeight (shape f i r v) = prevHeight v"
  by (simp_all add: shape_def)

lemma vars_advance [simp]:
  "prevLeftX (advance f v) = nextLeftX f v"
  "prevRightX (advance f v) = nextRightX f v"
  "prevHeight (advance f v) = nextHeight v"
  "dx (advance f v) = dx v"
  "dy (advance f v) = dy v"
  "topBase (advance f v) = topBase v"
  "bottomBase (advance f v) = bottomBase v"
  by (simp_all add: advance_def)

lemma next_centred:
  assumes "prevLeftX v + prevRightX v = Num w" and "dx v \<noteq> NaN"
  shows "nextLeftX f v + nextRightX f v = Num w"
  using assms
  by (cases "prevLeftX v"; cases "prevRightX v"; cases "dx v")
     (simp_all add: nextLeftX_def nextRightX_def)

lemma blocks_centred:
  assumes "prevLeftX v + prevRightX v = Num w"
    and "j < length rs"
    and "\<forall>k \<le> j. dx (snd (blocks f i rs v ! k)) \<noteq> NaN"
  shows "top_left_x (fst (blocks f i rs v ! j)) + top_right_x (fst (blocks f i rs v ! j)) = Num w \<and>
         bottom_left_x (fst (blocks f i rs v ! j)) + bottom_right_x (fst (blocks f i rs v ! j)) = Num w"
  using assms
proof (induction rs arbitrary: i v j)
  case Nil
  then show ?case by simp
next
  case (Cons r rs)
  let ?u = "shape f i r v"
  from Cons.prems(3) have "dx (snd (blocks f i (r # rs) v ! 0)) \<noteq> NaN"
    by blast
  then have fin: "dx ?u \<noteq> NaN" by simp
  from Cons.prems(1) have c: "prevLeftX ?u + prevRightX ?u = Num w" by simp
  show ?case
  proof (cases j)
    case 0
    with c fin show ?thesis by (simp add: next_centred)
  next
    case (Suc k)
    have "prevLeftX (advance f ?u) + prevRightX (advance f ?u) = Num w"
      using c fin by (simp add: next_centred)
    moreover from Cons.prems(2) Suc have "k < length rs" by simp
    moreover have "\<forall>m \<le> k. dx (snd (blocks f (Suc i) rs (advance f ?u) ! m)) \<noteq> NaN"
    proof (intro allI impI)
      fix m assume "m \<le> k"
      with Suc have "Suc m \<le> j" by simp
      with Cons.prems(3) have "dx (snd (blocks f i (r # rs) v ! Suc m)) \<noteq> NaN" by blast
      then show "dx (snd (blocks f (Suc i) rs (advance f ?u) ! m)) \<noteq> NaN" by simp
    qed
    ultimately show ?thesis
      using Cons.IH [of "advance f ?u" k "Suc i"] Suc by simp
  qed
qed

lemma initial_centred:
  assumes "width f = Num w" and "isInverted f \<longrightarrow> bottomLeftX f \<noteq> NaN"
  shows "prevLeftX (initial_vars f) + prevRightX (initial_vars f) = Num w"
  using assms by (cases "bottomLeftX f") (auto simp: initial_vars_def)

text \<open>
  C10, amended. On a chart whose width is a number (and whose \<open>bottomLeftX\<close> is one when
  the chart is inverted), the left and the right x-coordinate of block \<open>i\<close> add up to the
  width, at the top edge and at the bottom edge of the block, whenever the velocity \<open>dx\<close>
  of each of the rows 0 to \<open>i\<close> is a number. Curved, inverted, pinched and dynamic-area
  charts are all covered. As stated, for every configuration, the claim fails: in
  dynamic-area mode \<open>dx\<close> is not a number when the bottom of the chart is as wide as its
  top (lines 234 and 266).
\<close>

theorem makePaths_centred:
  assumes "width f = Num w"
    and "isInverted f \<longrightarrow> bottomLeftX f \<noteq> NaN"
    and "i < length (data f)"
    and "\<forall>k \<le> i. row_dx f ! k \<noteq> NaN"
  shows "top_left_x (makePaths f ! i) + top_right_x (makePaths f ! i) = width f \<and>
         bottom_left_x (makePaths f ! i) + bottom_right_x (makePaths f ! i) = width f"
proof -
  have "\<forall>k \<le> i. dx (snd (blocks f 0 (data f) (initial_vars f) ! k)) \<noteq> NaN"
    using assms(3,4) by (simp add: row_dx_def length_blocks)
  from blocks_centred [OF initial_centred [OF assms(1,2)] assms(3) this]
  show ?thesis using assms(1,3) by (simp add: makePaths_def length_blocks)
qed

theorem makePaths_centred_witness:
  "row_dx funnel_dynamic = [Num 50, Num 50] \<and>
   top_left_x (makePaths funnel_dynamic ! 1) + top_right_x (makePaths funnel_dynamic ! 1)
     = Num 500 \<and>
   bottom_left_x (makePaths funnel_dynamic ! 1) + bottom_right_x (makePaths funnel_dynamic ! 1)
     = Num 500"
proof -
  have "width funnel_dynamic = Num 500" and "isInverted funnel_dynamic \<longrightarrow> bottomLeftX funnel_dynamic \<noteq> NaN"
    and "1 < length (data funnel_dynamic)"
    by (simp_all add: funnel_dynamic_def)
  moreover have "\<forall>k \<le> 1. row_dx funnel_dynamic ! k \<noteq> NaN"
    by (auto simp: row_dx_dynamic le_Suc_eq)
  ultimately show ?thesis
    using makePaths_centred [of funnel_dynamic 500 1] row_dx_dynamic by simp
qed

theorem makePaths_centred_counterexample:
  "initialize default_label (Num 350) (Num 400) category10 rows_a options_flat_curved
     = Inr funnel_flat_curved \<and>
   bottom_left_x (makePaths funnel_flat_curved ! 0)
     + bottom_right_x (makePaths funnel_flat_curved ! 0) \<noteq> width funnel_flat_curved"
proof -
  have "width funnel_flat_curved = Num 350"
    by (simp add: funnel_flat_curved_def funnel_flat_def)
  then show ?thesis
    by (simp add: initialize_flat_curved makePaths_flat_curved bottom_left_x_def
        bottom_right_x_def)
qed

section \<open>Static geometry\<close>

lemma init_colors_length:
  "init_colors cs i rs = Inr rs' \<Longrightarrow> length rs' = length rs"
  by (induction rs arbitrary: i rs') (auto split: if_splits sum.splits)

lemma invalid_data_elements: "\<not> invalid_data d \<Longrightarrow> js_elements d \<noteq> []"
  by (cases d) (auto simp: invalid_data_def)

lemma initialize_Inr:
  assumes "initialize lbl mw mh cs d opts = Inr f"
  shows "\<exists>rows. f = configure (resolve_settings lbl mw mh opts) rows \<and> rows \<noteq> []"
proof -
  from assms have valid: "\<not> invalid_data d"
    by (auto simp: initialize_def split: if_splits)
  with assms obtain rows where
    rows: "init_colors cs 0 (js_elements d) = Inr rows"
    and f: "f = configure (resolve_settings lbl mw mh opts) rows"
    by (auto simp: initialize_def split: sum.splits)
  from init_colors_length [OF rows] invalid_data_elements [OF valid] have "rows \<noteq> []"
    by auto
  with f show ?thesis by blast
qed

lemma initialize_fields:
  assumes "initialize lbl mw mh cs d opts = Inr f"
  shows "data f \<noteq> []"
    and "bottomLeftX f = (width f - bottomWidth f) / Num 2"
    and "this_dx f =
           (if 0 < bottomPinch f
            then bottomLeftX f / num_of_int (int (length (data f)) - bottomPinch f)
            else bottomLeftX f / num_of_nat (length (data f)))"
    and "bottomWidth f = width f * s_bottomWidth (resolve_settings lbl mw mh opts)"
  using initialize_Inr [OF assms] by (auto simp: configure_def)

lemma shape_static:
  "\<not> dynamicArea f \<Longrightarrow> \<not> 0 < bottomPinch f \<Longrightarrow> shape f i r v = v"
  by (simp add: shape_def pinch_def)

lemma blocks_static:
  assumes "\<not> dynamicArea f" and "\<not> 0 < bottomPinch f"
    and "dx v = Num d" and "prevLeftX v = Num l" and "prevRightX v = Num r"
    and "j < length rs"
  shows "top_left_x (fst (blocks f i rs v ! j)) =
           Num (l + (if isInverted f then - 1 else 1) * (real j * d)) \<and>
         top_right_x (fst (blocks f i rs v ! j)) =
           Num (r - (if isInverted f then - 1 else 1) * (real j * d)) \<and>
         bottom_left_x (fst (blocks f i rs v ! j)) =
           Num (l + (if isInverted f then - 1 else 1) * (real (Suc j) * d)) \<and>
         bottom_right_x (fst (blocks f i rs v ! j)) =
           Num (r - (if isInverted f then - 1 else 1) * (real (Suc j) * d))"
  using assms(3-)
proof (induction rs arbitrary: i v j l r)
  case Nil
  then show ?case by simp
next
  case (Cons x rs)
  note st = shape_static [OF assms(1,2)]
  show ?case
  proof (cases j)
    case 0
    with Cons.prems show ?thesis
      by (simp add: st nextLeftX_def nextRightX_def)
  next
    case (Suc k)
    let ?s = "if isInverted f then - 1 else 1 :: real"
    have a: "dx (advance f v) = Num d"
      "prevLeftX (advance f v) = Num (l + ?s * d)"
      "prevRightX (advance f v) = Num (r - ?s * d)"
      using Cons.prems by (simp_all add: nextLeftX_def nextRightX_def)
    from Cons.prems Suc have "k < length rs" by simp
    from Cons.IH [OF a this, of "Suc i"] Suc
    show ?thesis by (simp add: st algebra_simps)
  qed
qed

text \<open>
  C6. After any call of \<open>_initialize\<close> that leaves a chart that is not inverted, not
  pinched and not in dynamic-area mode, with a number for its width and for its bottom
  width, the top edge of the first block is as wide as the chart and the bottom edge of
  the last block is as wide as \<open>bottomWidth\<close>, the width times the bottom width ratio.
  The chart may be curved. Numbers are exact, without the rounding of floating point.
\<close>

theorem static_first_top_last_bottom:
  assumes "initialize lbl mw mh cs d opts = Inr f"
    and "\<not> isInverted f" and "bottomPinch f \<le> 0" and "\<not> dynamicArea f"
    and "width f = Num w" and "bottomWidth f = Num bw"
  shows "makePaths f \<noteq> [] \<and>
         top_width (hd (makePaths f)) = width f \<and>
         bottom_width (last (makePaths f)) = bottomWidth f \<and>
         bottomWidth f = width f * s_bottomWidth (resolve_settings lbl mw mh opts)"
proof -
  let ?n = "length (data f)"
  let ?B = "blocks f 0 (data f) (initial_vars f)"
  let ?d = "(w - bw) / 2 / real ?n"
  note fs = initialize_fields [OF assms(1)]
  from fs(1) have n: "0 < ?n" by simp
  have np: "\<not> 0 < bottomPinch f" using assms(3) by simp
  have b: "bottomLeftX f = Num ((w - bw) / 2)"
    using fs(2) assms(5,6) by simp
  have dx0: "dx (initial_vars f) = Num ?d"
    using fs(3) np b n by (simp add: initial_vars_def num_of_nat_def)
  have l0: "prevLeftX (initial_vars f) = Num 0" and r0: "prevRightX (initial_vars f) = Num w"
    using assms(2,5) by (simp_all add: initial_vars_def)
  have len: "length (makePaths f) = ?n"
    by (simp add: makePaths_def length_blocks)
  with n have ne: "makePaths f \<noteq> []" by auto
  have nth: "makePaths f ! j = fst (?B ! j)" if "j < ?n" for j
    using that by (simp add: makePaths_def length_blocks)
  have hd: "hd (makePaths f) = fst (?B ! 0)"
    using hd_conv_nth [OF ne] nth [of 0] n by simp
  have last: "last (makePaths f) = fst (?B ! (?n - 1))"
    using last_conv_nth [OF ne] nth [of "?n - 1"] n len by simp
  from blocks_static [OF assms(4) np dx0 l0 r0, of 0 "data f" 0] n assms(2)
  have top: "top_width (hd (makePaths f)) = Num w"
    by (simp add: hd top_width_def)
  from n have sn: "Suc (?n - 1) = ?n" by simp
  from blocks_static [OF assms(4) np dx0 l0 r0, of "?n - 1" "data f" 0] n assms(2)
  have "bottom_width (last (makePaths f)) = Num (w - real ?n * ?d - real ?n * ?d)"
    by (simp add: last bottom_width_def sn del: of_nat_Suc)
  also have "w - real ?n * ?d - real ?n * ?d = bw"
    using n by (simp add: field_simps)
  finally show ?thesis using ne top assms(5,6) fs(4) by simp
qed

theorem static_first_top_last_bottom_witness:
  "initialize default_label (Num 350) (Num 400) category10 rows_abc no_options = Inr funnel_abc \<and>
   top_width (hd (makePaths funnel_abc)) = Num 350 \<and>
   bottom_width (last (makePaths funnel_abc)) = Num (350 / 3)"
proof -
  have h: "\<not> isInverted funnel_abc" "bottomPinch funnel_abc \<le> 0" "\<not> dynamicArea funnel_abc"
    "width funnel_abc = Num 350" "bottomWidth funnel_abc = Num (350 / 3)"
    by (simp_all add: funnel_abc_def)
  from static_first_top_last_bottom [OF initialize_abc h]
  show ?thesis by (simp add: h initialize_abc)
qed

text \<open>
  C7. After any call of \<open>_initialize\<close> that leaves an inverted chart that is not pinched
  and not in dynamic-area mode, with a number for its width and for its bottom width, the
  top edge of the first block is as wide as \<open>bottomWidth\<close> and the bottom edge of the last
  block is as wide as the chart: the two widths of a chart that is not inverted, swapped.
  The chart may be curved. Numbers are exact, without the rounding of floating point.
\<close>

theorem inverted_first_top_last_bottom:
  assumes "initialize lbl mw mh cs d opts = Inr f"
    and "isInverted f" and "bottomPinch f \<le> 0" and "\<not> dynamicArea f"
    and "width f = Num w" and "bottomWidth f = Num bw"
  shows "makePaths f \<noteq> [] \<and>
         top_width (hd (makePaths f)) = bottomWidth f \<and>
         bottom_width (last (makePaths f)) = width f"
proof -
  let ?n = "length (data f)"
  let ?B = "blocks f 0 (data f) (initial_vars f)"
  let ?d = "(w - bw) / 2 / real ?n"
  note fs = initialize_fields [OF assms(1)]
  from fs(1) have n: "0 < ?n" by simp
  have np: "\<not> 0 < bottomPinch f" using assms(3) by simp
  have b: "bottomLeftX f = Num ((w - bw) / 2)"
    using fs(2) assms(5,6) by simp
  have dx0: "dx (initial_vars f) = Num ?d"
    using fs(3) np b n by (simp add: initial_vars_def num_of_nat_def)
  have l0: "prevLeftX (initial_vars f) = Num ((w - bw) / 2)"
    and r0: "prevRightX (initial_vars f) = Num (w - (w - bw) / 2)"
    using assms(2,5) b by (simp_all add: initial_vars_def)
  have len: "length (makePaths f) = ?n"
    by (simp add: makePaths_def length_blocks)
  with n have ne: "makePaths f \<noteq> []" by auto
  have nth: "makePaths f ! j = fst (?B ! j)" if "j < ?n" for j
    using that by (simp add: makePaths_def length_blocks)
  have hd: "hd (makePaths f) = fst (?B ! 0)"
    using hd_conv_nth [OF ne] nth [of 0] n by simp
  have last: "last (makePaths f) = fst (?B ! (?n - 1))"
    using last_conv_nth [OF ne] nth [of "?n - 1"] n len by simp
  from blocks_static [OF assms(4) np dx0 l0 r0, of 0 "data f" 0] n assms(2)
  have top: "top_width (hd (makePaths f)) = Num bw"
    by (simp add: hd top_width_def field_simps)
  from n have sn: "Suc (?n - 1) = ?n" by simp
  from blocks_static [OF assms(4) np dx0 l0 r0, of "?n - 1" "data f" 0] n assms(2)
  have "bottom_width (last (makePaths f)) =
          Num (w - (w - bw) / 2 + real ?n * ?d - ((w - bw) / 2 - real ?n * ?d))"
    by (simp add: last bottom_width_def sn del: of_nat_Suc)
  also have "w - (w - bw) / 2 + real ?n * ?d - ((w - bw) / 2 - real ?n * ?d) = w"
    using n by (simp add: field_simps)
  finally show ?thesis using ne top assms(5,6) by simp
qed

theorem inverted_first_top_last_bottom_witness:
  "initialize default_label (Num 350) (Num 400) category10 rows_abc
     (no_options\<lparr> o_isInverted := Some True \<rparr>) = Inr funnel_inverted \<and>
   top_width (hd (makePaths funnel_inverted)) = Num (350 / 3) \<and>
   bottom_width (last (makePaths funnel_inverted)) = Num 350"
proof -
  have h: "isInverted funnel_inverted" "bottomPinch funnel_inverted \<le> 0"
    "\<not> dynamicArea funnel_inverted"
    "width funnel_inverted = Num 350" "bottomWidth funnel_inverted = Num (350 / 3)"
    by (simp_all add: funnel_inverted_def funnel_abc_def)
  from inverted_first_top_last_bottom [OF initialize_inverted h]
  show ?thesis by (simp add: h initialize_inverted)
qed

section \<open>Pinched blocks\<close>

lemma shape_pinched:
  "\<not> isInverted f \<Longrightarrow> \<not> dynamicArea f \<Longrightarrow> 0 < bottomPinch f \<Longrightarrow>
     shape f i r v =
       (if int (length (data f)) - bottomPinch f \<le> int i then v\<lparr> dx := Num 0 \<rparr> else v)"
  by (simp add: shape_def pinch_def)

lemma blocks_pinched:
  assumes "\<not> isInverted f" and "\<not> dynamicArea f" and "0 < bottomPinch f"
    and "prevLeftX v \<noteq> NaN" and "prevRightX v \<noteq> NaN"
    and "dx v \<noteq> NaN \<or> int (length (data f)) - bottomPinch f \<le> int i"
    and "j < length rs"
    and "int (length (data f)) - bottomPinch f \<le> int (i + j)"
  shows "bottom_left_x (fst (blocks f i rs v ! j)) = top_left_x (fst (blocks f i rs v ! j)) \<and>
         top_left_x (fst (blocks f i rs v ! j)) \<noteq> NaN \<and>
         bottom_right_x (fst (blocks f i rs v ! j)) = top_right_x (fst (blocks f i rs v ! j)) \<and>
         top_right_x (fst (blocks f i rs v ! j)) \<noteq> NaN"
  using assms(4-)
proof (induction rs arbitrary: i v j)
  case Nil
  then show ?case by simp
next
  case (Cons x rs)
  note sh = shape_pinched [OF assms(1-3)]
  obtain l r where lr: "prevLeftX v = Num l" "prevRightX v = Num r"
    using Cons.prems(1,2) by (cases "prevLeftX v"; cases "prevRightX v") auto
  show ?case
  proof (cases j)
    case 0
    with Cons.prems lr assms(1) show ?thesis
      by (simp add: sh nextLeftX_def nextRightX_def)
  next
    case (Suc k)
    let ?u = "shape f i x v"
    have fin: "dx ?u \<noteq> NaN"
      using Cons.prems(3) by (auto simp: sh)
    then obtain e where e: "dx ?u = Num e" by (cases "dx ?u") auto
    have a: "prevLeftX (advance f ?u) \<noteq> NaN" "prevRightX (advance f ?u) \<noteq> NaN"
      "dx (advance f ?u) \<noteq> NaN \<or> int (length (data f)) - bottomPinch f \<le> int (Suc i)"
      using lr e assms(1) by (simp_all add: nextLeftX_def nextRightX_def)
    from Cons.prems Suc have "k < length rs"
      and "int (length (data f)) - bottomPinch f \<le> int (Suc i + k)" by simp_all
    from Cons.IH [OF a this] Suc show ?thesis by simp
  qed
qed

text \<open>
  C8. After any call of \<open>_initialize\<close> that leaves a chart that is not inverted and not in
  dynamic-area mode, with a pinch count \<open>p\<close> between 1 and the number of rows and a number
  for its width and for its bottom width, each of the last \<open>p\<close> blocks has vertical sides:
  its bottom left corner has the x-coordinate of its top left corner, its bottom right
  corner that of its top right corner, and these coordinates are numbers.
\<close>

theorem pinched_blocks_vertical:
  assumes "initialize lbl mw mh cs d opts = Inr f"
    and "\<not> isInverted f" and "\<not> dynamicArea f"
    and "0 < bottomPinch f" and "bottomPinch f \<le> int (length (data f))"
    and "width f = Num w" and "bottomWidth f = Num bw"
    and "i < length (data f)" and "int (length (data f)) - bottomPinch f \<le> int i"
  shows "bottom_left_x (makePaths f ! i) = top_left_x (makePaths f ! i) \<and>
         top_left_x (makePaths f ! i) \<noteq> NaN \<and>
         bottom_right_x (makePaths f ! i) = top_right_x (makePaths f ! i) \<and>
         top_right_x (makePaths f ! i) \<noteq> NaN"
proof -
  let ?n = "length (data f)"
  note fs = initialize_fields [OF assms(1)]
  have b: "bottomLeftX f = Num ((w - bw) / 2)"
    using fs(2) assms(6,7) by simp
  have l0: "prevLeftX (initial_vars f) \<noteq> NaN" and r0: "prevRightX (initial_vars f) \<noteq> NaN"
    using assms(2,6) by (simp_all add: initial_vars_def)
  have dx0: "dx (initial_vars f) \<noteq> NaN \<or> int ?n - bottomPinch f \<le> int 0"
    using fs(3) assms(4,5) b by (auto simp: initial_vars_def num_of_int_def)
  from blocks_pinched [OF assms(2,3,4) l0 r0 dx0 assms(8)] assms(8,9)
  show ?thesis by (simp add: makePaths_def length_blocks)
qed

theorem pinched_blocks_vertical_witness:
  "initialize default_label (Num 350) (Num 400) category10 rows_abc
     (no_options\<lparr> o_bottomPinch := Some 1 \<rparr>) = Inr funnel_pinched \<and>
   bottom_left_x (makePaths funnel_pinched ! 2) = top_left_x (makePaths funnel_pinched ! 2) \<and>
   bottom_right_x (makePaths funnel_pinched ! 2) = top_right_x (makePaths funnel_pinched ! 2)"
proof -
  have h: "\<not> isInverted funnel_pinched" "\<not> dynamicArea funnel_pinched"
    "0 < bottomPinch funnel_pinched" "bottomPinch funnel_pinched \<le> int (length (data funnel_pinched))"
    "width funnel_pinched = Num 350" "bottomWidth funnel_pinched = Num (350 / 3)"
    "2 < length (data funnel_pinched)"
    "int (length (data funnel_pinched)) - bottomPinch funnel_pinched \<le> int 2"
    by (simp_all add: funnel_pinched_def funnel_abc_def)
  from pinched_blocks_vertical [OF initialize_pinched h]
  show ?thesis by (simp add: initialize_pinched)
qed

text \<open>
  In static mode the velocity of every row is a number, so that every block of a chart
  with a numeric width and bottom width is centred.
\<close>

lemma blocks_static_dx:
  assumes "\<not> dynamicArea f"
    and "this_dx f \<noteq> NaN \<or> bottomPinch f = int (length (data f))"
    and "dx v = this_dx f \<or> dx v = Num 0"
    and "j < length rs"
    and "i + length rs \<le> length (data f)"
  shows "dx (snd (blocks f i rs v ! j)) \<noteq> NaN"
  using assms(3-)
proof (induction rs arbitrary: i v j)
  case Nil
  then show ?case by simp
next
  case (Cons x rs)
  let ?u = "shape f i x v"
  from Cons.prems(3) have i: "i < length (data f)" by simp
  have u: "(dx ?u = this_dx f \<and> this_dx f \<noteq> NaN) \<or> dx ?u = Num 0"
    using assms(1,2) Cons.prems(1) i by (auto simp: shape_def pinch_def Let_def)
  show ?case
  proof (cases j)
    case 0
    with u show ?thesis by auto
  next
    case (Suc k)
    from u have "dx (advance f ?u) = this_dx f \<or> dx (advance f ?u) = Num 0" by auto
    moreover from Cons.prems Suc have "k < length rs" "Suc i + length rs \<le> length (data f)"
      by simp_all
    ultimately show ?thesis using Cons.IH [of "advance f ?u" k "Suc i"] Suc by simp
  qed
qed

lemma static_centred:
  assumes "initialize lbl mw mh cs d opts = Inr f"
    and "\<not> dynamicArea f" and "width f = Num w" and "bottomWidth f = Num bw"
    and "i < length (data f)"
  shows "top_left_x (makePaths f ! i) + top_right_x (makePaths f ! i) = width f \<and>
         bottom_left_x (makePaths f ! i) + bottom_right_x (makePaths f ! i) = width f"
proof -
  let ?n = "length (data f)"
  let ?B = "blocks f 0 (data f) (initial_vars f)"
  note fs = initialize_fields [OF assms(1)]
  from fs(1) have n: "0 < ?n" by simp
  have b: "bottomLeftX f = Num ((w - bw) / 2)"
    using fs(2) assms(3,4) by simp
  have fin: "this_dx f \<noteq> NaN \<or> bottomPinch f = int ?n"
    using fs(3) b n by (auto simp: num_of_int_def num_of_nat_def)
  have "dx (snd (?B ! k)) \<noteq> NaN" if "k \<le> i" for k
    using blocks_static_dx [OF assms(2) fin, of "initial_vars f" k "data f" 0] that assms(5)
    by (simp add: initial_vars_def)
  then have all: "\<forall>k \<le> i. dx (snd (?B ! k)) \<noteq> NaN" by blast
  have c: "prevLeftX (initial_vars f) + prevRightX (initial_vars f) = Num w"
    using assms(3) b by (intro initial_centred) simp_all
  from blocks_centred [OF c assms(5) all] assms(3,5)
  show ?thesis by (simp add: makePaths_def length_blocks)
qed

section \<open>Dynamic area\<close>


lemma slope_eval:
  assumes "width f = Num w" "height f = Num h" "bottomWidth f = Num bw" "bw \<noteq> w"
  shows "slope f = Num (2 * h / (w - bw))"
  using assms by (simp add: slope_def)

lemma radicand_eq:
  fixes w h bw T c tb :: real
  assumes "h \<noteq> 0" "bw \<noteq> w" "T \<noteq> 0"
  shows "(2 * h / (w - bw) * tb * tb - 4 * (c / T * (h * (w + bw) / 2))) / (2 * h / (w - bw))
           = tb\<^sup>2 - c / T * (w\<^sup>2 - bw\<^sup>2)"
proof -
  from assms have "w - bw \<noteq> 0" by simp
  with assms show ?thesis
    by (simp add: field_simps power2_eq_square)
qed

lemma dynamic_shape_eval:
  assumes "\<not> isCurved f" "minHeight f = None"
    and "width f = Num w" "height f = Num h" "bottomWidth f = Num bw"
    and "h \<noteq> 0" "bw \<noteq> w" "totalCount f = Num T" "T \<noteq> 0"
    and "topBase v = Num tb"
    and "0 \<le> tb\<^sup>2 - c / T * (w\<^sup>2 - bw\<^sup>2)"
    and "tb + sqrt (tb\<^sup>2 - c / T * (w\<^sup>2 - bw\<^sup>2)) \<noteq> 0"
  shows "bottomBase (dynamic_shape f (Num c) v) = Num (sqrt (tb\<^sup>2 - c / T * (w\<^sup>2 - bw\<^sup>2)))"
    and "topBase (dynamic_shape f (Num c) v) = Num (sqrt (tb\<^sup>2 - c / T * (w\<^sup>2 - bw\<^sup>2)))"
    and "dy (dynamic_shape f (Num c) v) =
           Num (c / T * (h * (w + bw) / 2) * 2 / (tb + sqrt (tb\<^sup>2 - c / T * (w\<^sup>2 - bw\<^sup>2))))"
    and "dx (dynamic_shape f (Num c) v) =
           Num (tb / 2 - sqrt (tb\<^sup>2 - c / T * (w\<^sup>2 - bw\<^sup>2)) / 2)"
proof -
  let ?rho = "tb\<^sup>2 - c / T * (w\<^sup>2 - bw\<^sup>2)"
  have area: "dynamic_area f (Num c) = Num (c / T * (h * (w + bw) / 2))"
    using assms(2-5,8,9) by (simp add: dynamic_area_def totalArea_def)
  have s: "slope f = Num (2 * h / (w - bw))"
    using assms(3-5,7) by (rule slope_eval)
  have s0: "2 * h / (w - bw) \<noteq> 0" using assms(6,7) by simp
  have bb: "js_sqrt ((slope f * topBase v * topBase v - Num 4 * dynamic_area f (Num c)) / slope f)
              = Num (sqrt ?rho)"
    using assms(11) s0
    by (simp only: area s assms(10) times_jsnum.simps minus_jsnum.simps divide_jsnum.simps
        if_not_P radicand_eq [OF assms(6,7,9)] js_sqrt.simps) simp
  show "bottomBase (dynamic_shape f (Num c) v) = Num (sqrt ?rho)"
    and "topBase (dynamic_shape f (Num c) v) = Num (sqrt ?rho)"
    and "dy (dynamic_shape f (Num c) v) = Num (c / T * (h * (w + bw) / 2) * 2 / (tb + sqrt ?rho))"
    and "dx (dynamic_shape f (Num c) v) = Num (tb / 2 - sqrt ?rho / 2)"
    using assms(1,12)
    by (simp_all only: dynamic_shape_def Let_def bb) (simp_all add: area assms(10))
qed

lemma positive_counts:
  "\<forall>r \<in> set rs. Num 0 < row_count r \<Longrightarrow>
     \<exists>cs. map row_count rs = map Num cs \<and> (\<forall>c \<in> set cs. 0 < c)"
proof (induction rs)
  case Nil
  then show ?case by simp
next
  case (Cons r rs)
  then obtain cs where cs: "map row_count rs = map Num cs" "\<forall>c \<in> set cs. 0 < c"
    by auto
  from Cons.prems obtain c where c: "row_count r = Num c" "0 < c"
    by (cases "row_count r") auto
  from cs c have "map row_count (r # rs) = map Num (c # cs) \<and> (\<forall>x \<in> set (c # cs). 0 < x)"
    by simp
  then show ?case by blast
qed

lemma foldl_counts:
  "map row_count rs = map Num cs \<Longrightarrow>
     foldl (\<lambda>acc r. acc + row_count r) (Num a) rs = Num (a + sum_list cs)"
proof (induction rs arbitrary: a cs)
  case Nil
  then show ?case by simp
next
  case (Cons r rs)
  then obtain c cs' where cs: "cs = c # cs'" "row_count r = Num c" "map row_count rs = map Num cs'"
    by (cases cs) auto
  from Cons.IH [OF cs(3), of "a + c"] cs show ?case by (simp add: add.assoc)
qed


lemma dynamic_areas:
  assumes "dynamicArea f" "\<not> isCurved f" "minHeight f = None"
    and "width f = Num w" "height f = Num h" "bottomWidth f = Num bw"
    and "0 < w" "h \<noteq> 0" "bw \<noteq> w" "totalCount f = Num T" "0 < T"
    and "map row_count rs = map Num cs" and "\<forall>c \<in> set cs. 0 < c" and "sum_list cs \<le> T"
    and "topBase v = Num tb" and "0 \<le> tb"
    and "tb\<^sup>2 = bw\<^sup>2 + sum_list cs / T * (w\<^sup>2 - bw\<^sup>2)"
  shows "trapezoid_areas (Num tb) (map snd (blocks f i rs v)) =
           map (\<lambda>c. Num (c / T * (h * (w + bw) / 2))) cs"
  using assms(12-)
proof (induction rs arbitrary: cs i v tb)
  case Nil
  then show ?case by simp
next
  case (Cons r rs)
  from Cons.prems(1) obtain c cs' where
    cs: "cs = c # cs'" "row_count r = Num c" "map row_count rs = map Num cs'"
    by (cases cs) auto
  from Cons.prems(2,3) cs(1) have c: "0 < c" and pos: "\<forall>x \<in> set cs'. 0 < x"
    and le: "c + sum_list cs' \<le> T" by simp_all
  have rest: "0 \<le> sum_list cs'" using pos by (simp add: sum_list_nonneg less_imp_le)
  let ?q = "sum_list cs' / T"
  let ?rho = "tb\<^sup>2 - c / T * (w\<^sup>2 - bw\<^sup>2)"
  have q: "0 \<le> ?q" "?q \<le> 1" using rest le c assms(11) by simp_all
  have rho: "?rho = bw\<^sup>2 + ?q * (w\<^sup>2 - bw\<^sup>2)"
    using Cons.prems(6) cs(1) assms(11) by (simp add: field_simps)
  also have "\<dots> = (1 - ?q) * bw\<^sup>2 + ?q * w\<^sup>2" by (simp add: algebra_simps)
  finally have rho': "?rho = (1 - ?q) * bw\<^sup>2 + ?q * w\<^sup>2" .
  have rho0: "0 \<le> ?rho" unfolding rho' using q
    by (intro add_nonneg_nonneg mult_nonneg_nonneg) simp_all
  have "0 < (c + sum_list cs') / T" using c rest assms(11) by simp
  then have "0 < (c + sum_list cs') / T * w\<^sup>2" using assms(7)
    by (intro mult_pos_pos zero_less_power)
  moreover have "(c + sum_list cs') / T \<le> 1" using le assms(11) by simp
  then have "0 \<le> (1 - (c + sum_list cs') / T) * bw\<^sup>2"
    by (intro mult_nonneg_nonneg) simp_all
  moreover have "tb\<^sup>2 = (1 - (c + sum_list cs') / T) * bw\<^sup>2 + (c + sum_list cs') / T * w\<^sup>2"
    using Cons.prems(6) cs(1) by (simp add: algebra_simps)
  ultimately have "0 < tb\<^sup>2" by linarith
  with Cons.prems(5) have tb: "0 < tb" by (cases "tb = 0") simp_all
  have sum0: "tb + sqrt ?rho \<noteq> 0"
    using tb rho0 by (smt (verit) real_sqrt_ge_zero)
  note ev = dynamic_shape_eval [OF assms(2-6,8,9,10) _ Cons.prems(4) rho0 sum0]
  have T0: "T \<noteq> 0" using assms(11) by simp
  let ?u = "shape f i r v"
  have u: "bottomBase ?u = Num (sqrt ?rho)" "topBase ?u = Num (sqrt ?rho)"
    "dy ?u = Num (c / T * (h * (w + bw) / 2) * 2 / (tb + sqrt ?rho))"
    using ev [OF T0] assms(1) by (simp_all add: shape_def cs(2))
  have first: "dy ?u * (Num tb + bottomBase ?u) / Num 2 = Num (c / T * (h * (w + bw) / 2))"
    using sum0 by (simp add: u)
  have "(sqrt ?rho)\<^sup>2 = bw\<^sup>2 + sum_list cs' / T * (w\<^sup>2 - bw\<^sup>2)"
    using rho0 rho by simp
  moreover have "sum_list cs' \<le> T" using le c by simp
  moreover have "topBase (advance f ?u) = Num (sqrt ?rho)" using u(2) by simp
  moreover have "0 \<le> sqrt ?rho" using rho0 by simp
  ultimately have "trapezoid_areas (Num (sqrt ?rho)) (map snd (blocks f (Suc i) rs (advance f ?u))) =
          map (\<lambda>c. Num (c / T * (h * (w + bw) / 2))) cs'"
    using Cons.IH [OF cs(3) pos, of "advance f ?u" "sqrt ?rho" "Suc i"] by blast
  with first show ?case by (simp add: cs(1) u(1))
qed

lemma dynamic_shape_dx:
  "dx (dynamic_shape f c v) = topBase v / Num 2 - bottomBase (dynamic_shape f c v) / Num 2"
  "topBase (dynamic_shape f c v) = bottomBase (dynamic_shape f c v)"
  by (simp_all add: dynamic_shape_def Let_def)



text \<open>
  The margin of the square root of line 266. In exact arithmetic the radicand of a row
  is \<open>(1 - q) * bw\<^sup>2 + q * w\<^sup>2\<close>, where \<open>q\<close> is the share that the rows after it have of the
  total of the values: the \<open>bottomBase\<close> of every row, its square root, is a number that
  is at least the smaller of the bottom width and the width of the chart, whatever the
  orientation and the pinch count. With a bottom width of 0 the radicand of the last row
  is 0.
\<close>

lemma dynamic_bottomBase_rows:
  assumes "dynamicArea f" "\<not> isCurved f" "minHeight f = None"
    and "width f = Num w" "height f = Num h" "bottomWidth f = Num bw"
    and "0 < w" "h \<noteq> 0" "0 < bw" "bw \<noteq> w" "totalCount f = Num T" "0 < T"
    and "map row_count rs = map Num cs" and "\<forall>c \<in> set cs. 0 < c" and "sum_list cs \<le> T"
    and "topBase v = Num tb" and "0 \<le> tb"
    and "tb\<^sup>2 = bw\<^sup>2 + sum_list cs / T * (w\<^sup>2 - bw\<^sup>2)"
    and "j < length rs"
  shows "\<exists>b. bottomBase (snd (blocks f i rs v ! j)) = Num b \<and> min bw w \<le> b"
  using assms(13-)
proof (induction rs arbitrary: cs i v tb j)
  case Nil
  then show ?case by simp
next
  case (Cons r rs)
  from Cons.prems(1) obtain c cs' where
    cs: "cs = c # cs'" "row_count r = Num c" "map row_count rs = map Num cs'"
    by (cases cs) auto
  from Cons.prems(2,3) cs(1) have c: "0 < c" and pos: "\<forall>x \<in> set cs'. 0 < x"
    and le: "c + sum_list cs' \<le> T" by simp_all
  have rest: "0 \<le> sum_list cs'" using pos by (simp add: sum_list_nonneg less_imp_le)
  let ?q = "sum_list cs' / T"
  let ?rho = "tb\<^sup>2 - c / T * (w\<^sup>2 - bw\<^sup>2)"
  let ?m = "min bw w"
  have q: "0 \<le> ?q" "?q \<le> 1" using rest le c assms(12) by simp_all
  have rho: "?rho = bw\<^sup>2 + ?q * (w\<^sup>2 - bw\<^sup>2)"
    using Cons.prems(6) cs(1) assms(12) by (simp add: field_simps)
  also have "\<dots> = (1 - ?q) * bw\<^sup>2 + ?q * w\<^sup>2" by (simp add: algebra_simps)
  finally have rho': "?rho = (1 - ?q) * bw\<^sup>2 + ?q * w\<^sup>2" .
  have m0: "0 < ?m" using assms(7,9) by simp
  have sq: "?m\<^sup>2 \<le> bw\<^sup>2" "?m\<^sup>2 \<le> w\<^sup>2" using m0 by (simp_all add: power_mono)
  from sq(1) have "(1 - ?q) * ?m\<^sup>2 \<le> (1 - ?q) * bw\<^sup>2"
    by (rule mult_left_mono) (use q in simp)
  moreover from sq(2) have "?q * ?m\<^sup>2 \<le> ?q * w\<^sup>2"
    by (rule mult_left_mono) (use q in simp)
  ultimately have "(1 - ?q) * ?m\<^sup>2 + ?q * ?m\<^sup>2 \<le> ?rho" unfolding rho' by (rule add_mono)
  then have m: "?m\<^sup>2 \<le> ?rho" by (simp add: algebra_simps)
  then have rho0: "0 \<le> ?rho" by (smt (verit) zero_le_power2)
  from m have bound: "?m \<le> sqrt ?rho" by (rule real_le_rsqrt)
  have "0 < tb\<^sup>2"
  proof -
    have "0 < (c / T) * \<bar>w\<^sup>2 - bw\<^sup>2\<bar>" using c assms(10,12,7,9)
      by (simp add: power2_eq_iff_nonneg)
    moreover have "tb\<^sup>2 = ?rho + c / T * (w\<^sup>2 - bw\<^sup>2)" by simp
    moreover have "tb\<^sup>2 = (1 - (c + sum_list cs') / T) * bw\<^sup>2 + (c + sum_list cs') / T * w\<^sup>2"
      using Cons.prems(6) cs(1) by (simp add: algebra_simps)
    moreover have "0 < (c + sum_list cs') / T * w\<^sup>2" using c rest assms(7,12)
      by (intro mult_pos_pos zero_less_power divide_pos_pos add_pos_nonneg)
    moreover have "(c + sum_list cs') / T \<le> 1" using le assms(12) by simp
    then have "0 \<le> (1 - (c + sum_list cs') / T) * bw\<^sup>2"
      by (intro mult_nonneg_nonneg) simp_all
    ultimately show ?thesis by linarith
  qed
  with Cons.prems(5) have tb: "0 < tb" by (cases "tb = 0") simp_all
  have sum0: "tb + sqrt ?rho \<noteq> 0"
    using tb rho0 by (smt (verit) real_sqrt_ge_zero)
  have T0: "T \<noteq> 0" using assms(12) by simp
  note ev = dynamic_shape_eval [OF assms(2-6,8,10,11) T0 Cons.prems(4) rho0 sum0]
  let ?u = "shape f i r v"
  have u: "bottomBase ?u = Num (sqrt ?rho)" "topBase ?u = Num (sqrt ?rho)"
    using ev assms(1) by (simp_all add: shape_def cs(2))
  show ?case
  proof (cases j)
    case 0
    with u(1) bound show ?thesis by simp
  next
    case (Suc k)
    have "(sqrt ?rho)\<^sup>2 = bw\<^sup>2 + sum_list cs' / T * (w\<^sup>2 - bw\<^sup>2)"
      using rho0 rho by simp
    moreover have "sum_list cs' \<le> T" using le c by simp
    moreover have "topBase (advance f ?u) = Num (sqrt ?rho)" using u(2) by simp
    moreover have "0 \<le> sqrt ?rho" using rho0 by simp
    moreover from Cons.prems(7) Suc have "k < length rs" by simp
    ultimately have "\<exists>b. bottomBase (snd (blocks f (Suc i) rs (advance f ?u) ! k)) = Num b
        \<and> min bw w \<le> b"
      using Cons.IH [OF cs(3) pos, of "advance f ?u" "sqrt ?rho" k "Suc i"] by blast
    with Suc show ?thesis by simp
  qed
qed

lemma dynamic_radicand_bound:
  assumes "dynamicArea f" and "\<not> isCurved f" and "minHeight f = None"
    and "width f = Num w" and "0 < w" and "height f = Num h" and "0 < h"
    and "bottomWidth f = Num bw" and "0 < bw" and "bw \<noteq> w"
    and "\<forall>r \<in> set (data f). Num 0 < row_count r"
    and "i < length (data f)"
  shows "\<exists>b. bottomBase (snd (blocks f 0 (data f) (initial_vars f) ! i)) = Num b \<and> min bw w \<le> b"
proof -
  from positive_counts [OF assms(11)] obtain cs where
    cs: "map row_count (data f) = map Num cs" "\<forall>c \<in> set cs. 0 < c" by blast
  let ?T = "sum_list cs"
  from cs(1) assms(12) have "cs \<noteq> []" by auto
  with cs(2) have T: "0 < ?T" by (cases cs) (auto intro: add_pos_nonneg sum_list_nonneg less_imp_le)
  have tc: "totalCount f = Num ?T"
    using foldl_counts [OF cs(1), of 0] by (simp add: totalCount_def)
  have h0: "h \<noteq> 0" using assms(7) by simp
  have tb: "topBase (initial_vars f) = Num w" "0 \<le> w"
    using assms(4,5) by (simp_all add: initial_vars_def)
  have "w\<^sup>2 = bw\<^sup>2 + ?T / ?T * (w\<^sup>2 - bw\<^sup>2)" using T by simp
  from dynamic_bottomBase_rows [OF assms(1-4,6,8,5) h0 assms(9,10) tc T cs _ tb this assms(12)]
  show ?thesis by simp
qed




text \<open>
  In dynamic-area mode, on a chart that is not curved and has no minimum height, whose
  width, height and bottom width are positive numbers, the bottom not as wide as the
  top, with a positive value in each of its rows, the velocity of every row is a number,
  whatever the orientation and the pinch count, so that every block of such a chart is
  centred.
\<close>

lemma pinch_dx_dynamic:
  "dynamicArea f \<Longrightarrow> dx w \<noteq> NaN \<Longrightarrow> dx (pinch f i w) \<noteq> NaN"
  by (auto simp: pinch_def Let_def)

lemma blocks_dynamic_dx:
  assumes "dynamicArea f"
    and "topBase v \<noteq> NaN"
    and "NaN \<notin> set (trapezoid_areas (topBase v) (map snd (blocks f i rs v)))"
    and "j < length rs"
  shows "dx (snd (blocks f i rs v ! j)) \<noteq> NaN"
  using assms(2-)
proof (induction rs arbitrary: i v j)
  case Nil
  then show ?case by simp
next
  case (Cons x rs)
  let ?w = "dynamic_shape f (row_count x) v"
  let ?u = "shape f i x v"
  have u: "?u = pinch f i ?w" using assms(1) by (simp add: shape_def)
  from Cons.prems(2) have fin: "dy ?u * (topBase v + bottomBase ?u) / Num 2 \<noteq> NaN"
    and rest: "NaN \<notin> set (trapezoid_areas (bottomBase ?u)
                 (map snd (blocks f (Suc i) rs (advance f ?u))))"
    by auto
  from fin obtain bb where bb: "bottomBase ?u = Num bb"
    by (cases "dy ?u"; cases "bottomBase ?u") auto
  then have bw: "bottomBase ?w = Num bb" by (simp add: u)
  from Cons.prems(1) obtain tb where tb: "topBase v = Num tb" by (cases "topBase v") auto
  have "dx ?w \<noteq> NaN"
    using dynamic_shape_dx(1) [of f "row_count x" v] bw tb by simp
  then have dxu: "dx ?u \<noteq> NaN"
    unfolding u using assms(1) by (rule pinch_dx_dynamic [rotated])
  show ?case
  proof (cases j)
    case 0
    with dxu show ?thesis by simp
  next
    case (Suc k)
    have t: "topBase (advance f ?u) = bottomBase ?u"
      using dynamic_shape_dx(2) [of f "row_count x" v] by (simp add: u)
    with bb have "topBase (advance f ?u) \<noteq> NaN" by simp
    moreover have "NaN \<notin> set (trapezoid_areas (topBase (advance f ?u))
        (map snd (blocks f (Suc i) rs (advance f ?u))))"
      using rest t by simp
    moreover from Cons.prems(3) Suc have "k < length rs" by simp
    ultimately show ?thesis
      using Cons.IH [of "advance f ?u" "Suc i" k] Suc by simp
  qed
qed

lemma dynamic_centred:
  assumes "dynamicArea f" and "\<not> isCurved f" and "minHeight f = None"
    and "width f = Num w" and "0 < w" and "height f = Num h" and "0 < h"
    and "bottomWidth f = Num bw" and "0 < bw" and "bw \<noteq> w"
    and "\<forall>r \<in> set (data f). Num 0 < row_count r"
    and "isInverted f \<longrightarrow> bottomLeftX f \<noteq> NaN"
    and "i < length (data f)"
  shows "top_left_x (makePaths f ! i) + top_right_x (makePaths f ! i) = width f \<and>
         bottom_left_x (makePaths f ! i) + bottom_right_x (makePaths f ! i) = width f"
proof -
  let ?B = "blocks f 0 (data f) (initial_vars f)"
  from positive_counts [OF assms(11)] obtain cs where
    cs: "map row_count (data f) = map Num cs" "\<forall>c \<in> set cs. 0 < c" by blast
  let ?T = "sum_list cs"
  from cs(1) assms(13) have "cs \<noteq> []" by auto
  with cs(2) have T: "0 < ?T" by (cases cs) (auto intro: add_pos_nonneg sum_list_nonneg less_imp_le)
  have tc: "totalCount f = Num ?T"
    using foldl_counts [OF cs(1), of 0] by (simp add: totalCount_def)
  have h0: "h \<noteq> 0" using assms(7) by simp
  have "w\<^sup>2 = bw\<^sup>2 + ?T / ?T * (w\<^sup>2 - bw\<^sup>2)" using T by simp
  from dynamic_areas [OF assms(1-4,6,8,5) h0 assms(10) tc T cs _ _ _ this, of "initial_vars f" 0]
    assms(4,5)
  have "trapezoid_areas (topBase (initial_vars f)) (map snd ?B) =
          map (\<lambda>c. Num (c / ?T * (h * (w + bw) / 2))) cs"
    by (simp add: initial_vars_def)
  then have fin: "NaN \<notin> set (trapezoid_areas (topBase (initial_vars f)) (map snd ?B))"
    by auto
  have tb: "topBase (initial_vars f) \<noteq> NaN"
    using assms(4) by (simp add: initial_vars_def)
  have "dx (snd (?B ! k)) \<noteq> NaN" if "k \<le> i" for k
    using blocks_dynamic_dx [OF assms(1) tb fin, of k] that assms(13) by simp
  then have all: "\<forall>k \<le> i. dx (snd (?B ! k)) \<noteq> NaN" by blast
  from blocks_centred [OF initial_centred [OF assms(4,12)] assms(13) all] assms(4,13)
  show ?thesis by (simp add: makePaths_def length_blocks)
qed

section \<open>Invalid data\<close>

lemma length_destroy: "length (destroy ns) \<le> length ns"
  by (induction ns rule: destroy.induct) auto

lemma destroy_unchanged: "destroy ns = ns \<longleftrightarrow> \<not> has_svg ns"
proof (induction ns rule: destroy.induct)
  case 1
  then show ?case by simp
next
  case (2 t cs ns)
  show ?case
  proof (cases "t = ''svg''")
    case True
    have "destroy ns \<noteq> Node t cs # ns"
      using length_destroy [of ns] by (auto dest: arg_cong [where f = length])
    with True show ?thesis by simp
  next
    case False
    with 2 show ?thesis by auto
  qed
qed

lemma no_svg_destroy: "\<not> has_svg (destroy ns)"
  by (induction ns rule: destroy.induct) auto

lemma draw_invalid:
  "invalid_data d \<Longrightarrow> draw lbl container mw mh cs d opts = (Inl InvalidInput, destroy container)"
  by (simp add: draw_def initialize_def)

text \<open>
  C2, amended. For every malformed input (not a list, an empty list, or a first row that
  is not a list or has fewer than 2 fields) \<open>draw\<close> throws the error of invalid input and
  adds no element, but it has called \<open>destroy\<close> before (line 66): every \<open>svg\<close> element
  that was below the container is removed, and the container is left as it was only
  when it held none. As stated (nothing drawn before is removed) the claim fails on a
  container that holds a chart.
\<close>

theorem draw_invalid_data:
  assumes "invalid_data d"
  shows "draw lbl container mw mh cs d opts = (Inl InvalidInput, destroy container) \<and>
         \<not> has_svg (destroy container) \<and>
         (destroy container = container \<longleftrightarrow> \<not> has_svg container)"
  using assms by (simp add: draw_invalid destroy_unchanged no_svg_destroy)

lemma draw_abc:
  "draw default_label [] (Num 350) (Num 400) category10 rows_abc no_options =
     (Inr funnel_abc, [Node ''svg'' (chart funnel_abc)])"
  by (simp add: draw_def initialize_abc)

theorem draw_invalid_data_witness:
  "invalid_data (JArray []) \<and>
   draw default_label [Node ''p'' [], Node ''svg'' (chart funnel_abc)] (Num 350) (Num 400)
     category10 (JArray []) no_options = (Inl InvalidInput, [Node ''p'' []])"
proof -
  have "invalid_data (JArray [])" by (simp add: invalid_data_def)
  from draw_invalid_data [OF this] this show ?thesis by simp
qed

theorem draw_invalid_data_counterexample:
  "draw default_label [] (Num 350) (Num 400) category10 rows_abc no_options =
     (Inr funnel_abc, [Node ''svg'' (chart funnel_abc)]) \<and>
   invalid_data (JArray []) \<and>
   snd (draw (label funnel_abc) [Node ''svg'' (chart funnel_abc)] (Num 350) (Num 400)
          category10 (JArray []) no_options) \<noteq> [Node ''svg'' (chart funnel_abc)]"
proof -
  have "invalid_data (JArray [])" by (simp add: invalid_data_def)
  then show ?thesis by (simp add: draw_abc draw_invalid)
qed

section \<open>Settings\<close>

lemma resolved_size:
  "s_width (resolve_settings lbl mw mh opts) =
     (if overwrite (o_width opts) mw \<le> Num 0 then Num 350 else overwrite (o_width opts) mw)"
  "s_height (resolve_settings lbl mw mh opts) =
     (if overwrite (o_height opts) mh \<le> Num 0 then Num 400 else overwrite (o_height opts) mh)"
  by (simp_all add: resolve_settings_def fallback_size_def label_settings_def apply_options_def
      defaults_def Let_def split: option.splits)

lemma resolved_size_positive:
  assumes "overwrite (o_width opts) mw \<noteq> NaN" and "overwrite (o_height opts) mh \<noteq> NaN"
  shows "Num 0 < s_width (resolve_settings lbl mw mh opts)"
    and "Num 0 < s_height (resolve_settings lbl mw mh opts)"
  using assms
  by (cases "overwrite (o_width opts) mw"; cases "overwrite (o_height opts) mh";
      simp add: resolved_size)+

text \<open>
  C4. The claim does not hold of the code. A width or height that is a number ends
  strictly positive (\<open>resolved_size_positive\<close>), but one that is \<open>NaN\<close> passes the tests
  \<open>settings.width <= 0\<close> and \<open>settings.height <= 0\<close> of lines 143 and 146, which are to
  catch a size that is not valid, and stays: in a container whose styles are \<open>auto\<close> the
  resolved width and height are \<open>NaN\<close>, not the defaults 350 and 400.
\<close>

theorem initialize_unsized:
  "initialize default_label NaN NaN category10 rows_abc no_options = Inr funnel_unsized \<and>
   width funnel_unsized = NaN \<and> height funnel_unsized = NaN"
  by (simp add: initialize_defs settings_defs rows_abc_def funnel_unsized_def funnel_abc_def)

lemma merge_label_eq:
  "merge_label kvs lbl k =
     (if validLabelOptions k
      then (case map_of (rev kvs) k of None \<Rightarrow> lbl k | Some v \<Rightarrow> Some v)
      else lbl k)"
  by (induction kvs arbitrary: lbl) (auto split: option.splits)

lemma validLabelOptions_examples:
  "validLabelOptions ''fontSize''" "validLabelOptions ''fill''"
  "validLabelOptions ''fillOpacity''" "\<not> validLabelOptions ''color''"
  by (simp_all add: validLabelOptions_def)

text \<open>
  C5. The claim does not hold of the code. The keys \<open>fontSize\<close> and \<open>fill\<close> are merged and
  a key in which neither occurs is ignored (\<open>merge_label_eq\<close>), but the pattern
  \<open>/fontSize|fill/\<close> of line 131 has no anchors: the key \<open>fillOpacity\<close>, which is not a
  label setting, is merged into the label settings as well.
\<close>

theorem label_fillOpacity_merged:
  "\<not> default_label ''fillOpacity'' = Some ''0.5'' \<and>
   s_label (resolve_settings default_label (Num 350) (Num 400) options_label) ''fillOpacity''
     = Some ''0.5''"
  by (simp add: settings_defs options_label_def default_label_def validLabelOptions_def)

section \<open>Shading\<close>

lemma hex_digits_numeral [simp]:
  "hex_digits (numeral k) =
     (if numeral k < (16::nat) then [''0123456789abcdef'' ! numeral k]
      else hex_digits (numeral k div 16) @ [''0123456789abcdef'' ! (numeral k mod 16)])"
  by (rule hex_digits.simps)

lemma hex_digits_small [simp]: "hex_digits 0 = ''0''" "hex_digits (Suc 0) = ''1''"
  by (simp_all add: hex_digits.simps)

lemma hex_digit_value:
  assumes "hex_digit c"
  shows "\<exists>v < 16. hex_value c = Some v"
    and "\<not> white_space c" and "c \<noteq> CHR ''-''" and "c \<noteq> CHR ''+''"
    and "c \<noteq> CHR ''x''" and "c \<noteq> CHR ''X''"
  using assms by (auto simp: hex_digit_def hex_value_def white_space_def)

lemma hex_digits_snoc:
  assumes "0 < m" and "d < 16"
  shows "hex_digits (16 * m + d) = hex_digits m @ [''0123456789abcdef'' ! d]"
proof -
  from assms have "\<not> 16 * m + d < 16" by simp
  then have "hex_digits (16 * m + d) =
      hex_digits ((16 * m + d) div 16) @ [''0123456789abcdef'' ! ((16 * m + d) mod 16)]"
    by (subst hex_digits.simps) simp
  with assms show ?thesis by simp
qed

lemma hex_digits_byte:
  assumes "0 < m" and "k < 256"
  shows "hex_digits (256 * m + k) = hex_digits m @ hex2 k"
proof -
  have e: "256 * m + k = 16 * (16 * m + k div 16) + k mod 16" by simp
  have "hex_digits (256 * m + k) = hex_digits (16 * (16 * m + k div 16) + k mod 16)"
    by (simp only: e)
  also have "\<dots> = hex_digits (16 * m + k div 16) @ [''0123456789abcdef'' ! (k mod 16)]"
    by (rule hex_digits_snoc) (use assms in simp_all)
  also have "hex_digits (16 * m + k div 16) = hex_digits m @ [''0123456789abcdef'' ! (k div 16)]"
    by (rule hex_digits_snoc) (use assms in simp_all)
  finally show ?thesis by (simp add: hex2_def)
qed

lemma hex_digits_color:
  assumes "r < 256" "g < 256" "b < 256"
  shows "hex_digits (16777216 + r * 65536 + g * 256 + b) = CHR ''1'' # hex2 r @ hex2 g @ hex2 b"
proof -
  have e: "16777216 + r * 65536 + g * 256 + b = 256 * (256 * (256 * 1 + r) + g) + b"
    by simp
  have "hex_digits (16777216 + r * 65536 + g * 256 + b) =
          hex_digits (256 * (256 * (256 * 1 + r) + g) + b)"
    by (simp only: e)
  also have "\<dots> = hex_digits (256 * (256 * 1 + r) + g) @ hex2 b"
    by (rule hex_digits_byte) (use assms in simp_all)
  also have "hex_digits (256 * (256 * 1 + r) + g) = hex_digits (256 * 1 + r) @ hex2 g"
    by (rule hex_digits_byte) (use assms in simp_all)
  also have "hex_digits (256 * 1 + r) = hex_digits 1 @ hex2 r"
    by (rule hex_digits_byte) (use assms in simp_all)
  finally show ?thesis by simp
qed

lemma round_shift: "js_round (real_of_int c + x) = c + js_round x"
  by (simp add: js_round_def add.assoc)

lemma channel_bounds:
  fixes c :: int and p :: real
  assumes "0 \<le> c" "c \<le> 255" "0 \<le> p" "p \<le> 1"
  shows "0 \<le> js_round (real_of_int (255 - c) * p) + c"
    and "js_round (real_of_int (255 - c) * p) + c \<le> 255"
    and "0 \<le> js_round (real_of_int (0 - c) * p) + c"
    and "js_round (real_of_int (0 - c) * p) + c \<le> 255"
proof -
  let ?x = "real_of_int (255 - c) * p"
  let ?y = "real_of_int (0 - c) * p"
  have x: "0 \<le> ?x" "?x \<le> real_of_int (255 - c)"
    using assms by (simp_all add: mult_left_le)
  have y: "?y \<le> 0" "real_of_int (0 - c) \<le> ?y"
    using assms by (simp_all add: mult_left_le mult_nonneg_nonneg)
  have "0 \<le> js_round ?x" using x(1) by (simp add: js_round_def)
  then show "0 \<le> js_round ?x + c" using assms(1) by simp
  have "js_round ?x \<le> 255 - c"
    unfolding js_round_def floor_le_iff using x(2) by simp
  then show "js_round ?x + c \<le> 255" by simp
  have "0 - c \<le> js_round ?y"
    unfolding js_round_def le_floor_iff using y(2) by simp
  then show "0 \<le> js_round ?y + c" by simp
  have "js_round ?y \<le> 0"
    unfolding js_round_def floor_le_iff using y(1) by simp
  then show "js_round ?y + c \<le> 255" using assms(2) by simp
qed

lemma six_digits:
  assumes "length ds = 6"
  obtains c1 c2 c3 c4 c5 c6 where "ds = [c1, c2, c3, c4, c5, c6]"
  using assms by (auto simp: length_Suc_conv eval_nat_numeral)

lemma bytes_of_color:
  fixes r g b :: int
  assumes "0 \<le> r" "r < 256" "0 \<le> g" "g < 256" "0 \<le> b" "b < 256"
  shows "to_int32 (Some (r * 65536 + g * 256 + b)) div 2 ^ 16 = r"
    and "to_int32 (Some (r * 65536 + g * 256 + b)) div 2 ^ 8 mod 256 = g"
    and "to_int32 (Some (r * 65536 + g * 256 + b)) mod 256 = b"
proof -
  let ?f = "r * 65536 + g * 256 + b"
  have f: "0 \<le> ?f" "?f < 2147483648" using assms by simp_all
  then have "(?f + 2147483648) mod 4294967296 = ?f + 2147483648"
    by (intro mod_pos_pos_trivial) simp_all
  then have t: "to_int32 (Some ?f) = ?f" by (simp add: to_int32_def)
  have e1: "?f = (g * 256 + b) + 65536 * r" and e2: "?f = b + 256 * (r * 256 + g)"
    by simp_all
  have "?f div 65536 = r + (g * 256 + b) div 65536"
    by (simp only: e1 div_mult_self2)
  moreover have "(g * 256 + b) div 65536 = 0"
    using assms by (intro div_pos_pos_trivial) simp_all
  ultimately show "to_int32 (Some ?f) div 2 ^ 16 = r" unfolding t by simp
  have "?f div 256 = r * 256 + g + b div 256"
    by (simp only: e2 div_mult_self2)
  then have "?f div 256 = r * 256 + g" using assms by simp
  moreover have "(g + 256 * r) mod 256 = g" using assms by simp
  then have "(r * 256 + g) mod 256 = g" by (simp add: ac_simps)
  ultimately show "to_int32 (Some ?f) div 2 ^ 8 mod 256 = g" unfolding t by simp
  have "?f mod 256 = b mod 256"
    by (simp only: e2 mod_mult_self2)
  then show "to_int32 (Some ?f) mod 256 = b" unfolding t using assms by simp
qed

lemma parse_six_digits:
  assumes "hex_value c1 = Some v1" "hex_value c2 = Some v2" "hex_value c3 = Some v3"
    "hex_value c4 = Some v4" "hex_value c5 = Some v5" "hex_value c6 = Some v6"
    and "hex_digit c1" "hex_digit c2"
  shows "parseInt16 [c1, c2, c3, c4, c5, c6] =
           Some (int (16 * v1 + v2) * 65536 + int (16 * v3 + v4) * 256 + int (16 * v5 + v6))"
proof -
  note d1 = hex_digit_value(2-4) [OF assms(7)]
  note d2 = hex_digit_value(5,6) [OF assms(8)]
  have "strip_0x [c1, c2, c3, c4, c5, c6] = [c1, c2, c3, c4, c5, c6]"
    using d2 by (simp add: strip_0x_def)
  moreover have "hex_number [c1, c2, c3, c4, c5, c6] =
      Some (16 * (16 * (16 * (16 * (16 * v1 + v2) + v3) + v4) + v5) + v6)"
    using assms(1-6) by (simp add: hex_number_def)
  ultimately show ?thesis
    using d1 by (simp add: parseInt16_def)
qed

lemma shade_channel_code:
  assumes "c < 256" "- 1 \<le> s" "s \<le> 1"
  shows "js_round (real_of_int ((if s < 0 then 0 else 255) - int c) * (if s < 0 then s * - 1 else s))
           + int c = int (shade_channel s c)"
    and "shade_channel s c < 256"
proof -
  let ?p = "if s < 0 then s * - 1 else s"
  let ?t = "if s < 0 then 0 else 255 :: int"
  have p: "0 \<le> ?p" "?p \<le> 1" "?p = \<bar>s\<bar>" using assms(2,3) by auto
  have c: "0 \<le> int c" "int c \<le> 255" using assms(1) by simp_all
  have lo: "0 \<le> js_round (real_of_int (?t - int c) * ?p) + int c"
    and hi: "js_round (real_of_int (?t - int c) * ?p) + int c \<le> 255"
    using channel_bounds [OF c p(1,2)] by (auto split: if_splits)
  have "real c + (if s < 0 then 0 - real c else 255 - real c) * \<bar>s\<bar> =
          real_of_int (int c) + real_of_int (?t - int c) * ?p"
    using p(3) by simp
  then have "js_round (real c + (if s < 0 then 0 - real c else 255 - real c) * \<bar>s\<bar>) =
          int c + js_round (real_of_int (?t - int c) * ?p)"
    by (simp only: round_shift)
  then have sc: "shade_channel s c = nat (js_round (real_of_int (?t - int c) * ?p) + int c)"
    by (simp add: shade_channel_def add.commute)
  show "js_round (real_of_int (?t - int c) * ?p) + int c = int (shade_channel s c)"
    using lo by (simp add: sc)
  show "shade_channel s c < 256" using hi lo by (simp add: sc)
qed

lemma shadeColor_channels:
  assumes "parseInt16 (drop 1 color) = Some (int r * 65536 + int g * 256 + int b)"
    and "r < 256" "g < 256" "b < 256" and "- 1 \<le> s" and "s \<le> 1"
  shows "shadeColor color s =
           CHR ''#'' # hex2 (shade_channel s r) @ hex2 (shade_channel s g) @ hex2 (shade_channel s b)"
proof -
  have ib: "0 \<le> int r" "int r < 256" "0 \<le> int g" "int g < 256" "0 \<le> int b" "int b < 256"
    using assms(2-4) by simp_all
  note bytes = bytes_of_color [OF ib]
  note R = shade_channel_code [OF assms(2,5,6)]
  note G = shade_channel_code [OF assms(3,5,6)]
  note B = shade_channel_code [OF assms(4,5,6)]
  let ?R = "shade_channel s r" and ?G = "shade_channel s g" and ?B = "shade_channel s b"
  have "shadeColor color s =
      CHR ''#'' # drop 1 (toString16 (16777216 + int ?R * 65536 + int ?G * 256 + int ?B))"
    by (simp only: shadeColor_def Let_def assms(1) bytes R(1) G(1) B(1))
  also have "toString16 (16777216 + int ?R * 65536 + int ?G * 256 + int ?B) =
      hex_digits (16777216 + ?R * 65536 + ?G * 256 + ?B)"
    by (simp add: toString16_def nat_add_distrib nat_mult_distrib)
  also have "\<dots> = CHR ''1'' # hex2 ?R @ hex2 ?G @ hex2 ?B"
    using R(2) G(2) B(2) by (rule hex_digits_color)
  finally show ?thesis by simp
qed

lemma shadeColor_six_digits:
  assumes "hexExpression color" and "length color = 7" and "- 1 \<le> s" and "s \<le> 1"
  shows "shadeColor color s = shade_spec color s"
proof -
  from assms(1,2) obtain ds where color: "color = CHR ''#'' # ds" and len: "length ds = 6"
    and hex: "list_all hex_digit ds"
    by (auto simp: hexExpression_def split: list.splits)
  from len obtain c1 c2 c3 c4 c5 c6 where ds: "ds = [c1, c2, c3, c4, c5, c6]"
    by (rule six_digits)
  from hex ds have h: "hex_digit c1" "hex_digit c2" "hex_digit c3" "hex_digit c4"
    "hex_digit c5" "hex_digit c6" by simp_all
  from h(1) hex_digit_value(1) obtain v1 where v1: "hex_value c1 = Some v1" "v1 < 16" by blast
  from h(2) hex_digit_value(1) obtain v2 where v2: "hex_value c2 = Some v2" "v2 < 16" by blast
  from h(3) hex_digit_value(1) obtain v3 where v3: "hex_value c3 = Some v3" "v3 < 16" by blast
  from h(4) hex_digit_value(1) obtain v4 where v4: "hex_value c4 = Some v4" "v4 < 16" by blast
  from h(5) hex_digit_value(1) obtain v5 where v5: "hex_value c5 = Some v5" "v5 < 16" by blast
  from h(6) hex_digit_value(1) obtain v6 where v6: "hex_value c6 = Some v6" "v6 < 16" by blast
  define r g b where "r = 16 * v1 + v2" and "g = 16 * v3 + v4" and "b = 16 * v5 + v6"
  have bounds: "r < 256" "g < 256" "b < 256"
    using v1(2) v2(2) v3(2) v4(2) v5(2) v6(2) by (simp_all add: r_def g_def b_def)
  have parse: "parseInt16 (drop 1 color) = Some (int r * 65536 + int g * 256 + int b)"
    unfolding color ds r_def g_def b_def
    using parse_six_digits [OF v1(1) v2(1) v3(1) v4(1) v5(1) v6(1) h(1,2)] by simp
  have ch: "channels color = [r, g, b]"
    by (simp add: channels_def color ds v1 v2 v3 v4 v5 v6 r_def g_def b_def)
  from shadeColor_channels [OF parse bounds assms(3,4)] show ?thesis
    by (simp add: shade_spec_def ch)
qed

lemma parseInt16_fff: "parseInt16 (drop 1 ''#fff'') = Some (int 0 * 65536 + int 15 * 256 + int 255)"
  by (simp add: parseInt16_def hex_number_def hex_value_def strip_0x_def white_space_def)

lemma shade_channel_examples:
  "shade_channel (- (1 / 4)) 0 = 0" "shade_channel (- (1 / 4)) 15 = 11"
  "shade_channel (- (1 / 4)) 255 = 191"
  by (simp_all add: shade_channel_def js_round_def)

lemma hex2_examples: "hex2 0 = ''00''" "hex2 11 = ''0b''" "hex2 191 = ''bf''"
  by (simp_all add: hex2_def)

lemma shadeColor_fff: "shadeColor ''#fff'' (- (1 / 4)) = ''#000bbf''"
  using shadeColor_channels [OF parseInt16_fff, of "- (1 / 4)"]
  by (simp add: shade_channel_examples hex2_examples)

lemma channels_fff: "channels ''#fff'' = [255, 255, 255]"
  by (simp add: channels_def hex_value_def)

lemma shade_spec_fff: "shade_spec ''#fff'' (- (1 / 4)) = ''#bfbfbf''"
  by (simp add: shade_spec_def channels_fff shade_channel_examples hex2_examples)

text \<open>
  C9. The claim does not hold of the code. For a color of six digits \<open>shadeColor\<close> is the
  shading of the specification (\<open>shadeColor_six_digits\<close>, for every shade from -1 to 1).
  A color of three digits, which the pattern of line 153 accepts just as well, is read as
  the number its three digits make (line 689): \<open>#fff\<close> is shaded as if it were \<open>#000fff\<close>,
  and a quarter darker it comes out as \<open>#000bbf\<close>, not as \<open>#bfbfbf\<close>.
\<close>

theorem shadeColor_three_digits:
  "hexExpression ''#fff'' \<and>
   shadeColor ''#fff'' (- (1 / 4)) = ''#000bbf'' \<and>
   shade_spec ''#fff'' (- (1 / 4)) = ''#bfbfbf''"
  using shadeColor_fff shade_spec_fff by (simp add: hexExpression_def hex_digit_def)

end
